theory Spec2Isabelle
  imports Main
begin

section \<open>JavaScript strings\<close>

text \<open>
  A JavaScript string is a sequence of UTF-16 code units. A code unit is modelled as a
  natural number (below 65536 for every real string), so that \<open>length\<close> counts what
  \<^verbatim>\<open>String.prototype.length\<close> counts. \<open>js\<close> turns an ASCII literal into such a string.
\<close>

type_synonym jsstring = "nat list"

definition js :: "string \<Rightarrow> jsstring" where
  "js s = map of_char s"

text \<open>
  The code units that \<^verbatim>\<open>String.prototype.trim\<close> removes and that the regular expression
  class \<^verbatim>\<open>\s\<close> matches (WhiteSpace and LineTerminator of ECMA-262): TAB, LF, VT, FF, CR,
  SP, NBSP, U+1680, U+2000..U+200A, U+2028, U+2029, U+202F, U+205F, U+3000, U+FEFF.
\<close>

definition isWhiteSpace :: "nat \<Rightarrow> bool" where
  "isWhiteSpace c \<longleftrightarrow>
     c = 0x09 \<or> c = 0x0A \<or> c = 0x0B \<or> c = 0x0C \<or> c = 0x0D \<or> c = 0x20 \<or> c = 0xA0 \<or>
     c = 0x1680 \<or> (0x2000 \<le> c \<and> c \<le> 0x200A) \<or> c = 0x2028 \<or> c = 0x2029 \<or>
     c = 0x202F \<or> c = 0x205F \<or> c = 0x3000 \<or> c = 0xFEFF"

definition trimStart :: "jsstring \<Rightarrow> jsstring" where
  "trimStart s = dropWhile isWhiteSpace s"

definition trimEnd :: "jsstring \<Rightarrow> jsstring" where
  "trimEnd s = rev (dropWhile isWhiteSpace (rev s))"

definition trim :: "jsstring \<Rightarrow> jsstring" where
  "trim s = trimEnd (trimStart s)"

text \<open>\<^verbatim>\<open>s.startsWith(p)\<close> and \<^verbatim>\<open>s.includes(p)\<close>.\<close>

fun startsWith :: "jsstring \<Rightarrow> jsstring \<Rightarrow> bool" where
  "startsWith s [] = True"
| "startsWith [] (p # ps) = False"
| "startsWith (c # cs) (p # ps) = (c = p \<and> startsWith cs ps)"

fun includes_js :: "jsstring \<Rightarrow> jsstring \<Rightarrow> bool" where
  "includes_js [] p = (p = [])"
| "includes_js (c # cs) p = (startsWith (c # cs) p \<or> includes_js cs p)"

text \<open>
  \<^verbatim>\<open>s.toLowerCase()\<close> on the ASCII letters; other code units are kept. This is what
  the method does on ASCII strings, which media types are.
\<close>

definition lowerChar :: "nat \<Rightarrow> nat" where
  "lowerChar c = (if 0x41 \<le> c \<and> c \<le> 0x5A then c + 0x20 else c)"

definition toLowerCase :: "jsstring \<Rightarrow> jsstring" where
  "toLowerCase s = map lowerChar s"

text \<open>\<^verbatim>\<open>x || d\<close> for a value that is a string, \<^verbatim>\<open>null\<close> or \<^verbatim>\<open>undefined\<close>:
  the empty string is falsy as well.\<close>

definition orElse :: "jsstring option \<Rightarrow> jsstring \<Rightarrow> jsstring" where
  "orElse x d = (case x of None \<Rightarrow> d | Some s \<Rightarrow> if s = [] then d else s)"

text \<open>The decimal rendering of a number inside a template literal.\<close>

fun decimal :: "nat \<Rightarrow> jsstring" where
  "decimal n = (if n < 10 then [0x30 + n] else decimal (n div 10) @ [0x30 + n mod 10])"

declare decimal.simps [simp del]

section \<open>\<^verbatim>\<open>JSON.parse\<close>\<close>

text \<open>
  \<^verbatim>\<open>JSON.parse\<close> is the platform's; it is modelled after the JSON grammar (ECMA-404) in two
  phases, a lexer from code units to tokens and a parser from tokens to values. A number
  keeps its literal and an object keeps its members in source order, so two results that
  are equal here are equal in JavaScript.
\<close>

datatype json =
    JNull
  | JBool bool
  | JNum jsstring
  | JStr jsstring
  | JArr "json list"
  | JObj "(jsstring \<times> json) list"

datatype token =
    TLBrace | TRBrace | TLBrack | TRBrack | TColon | TComma
  | TString jsstring | TNumber jsstring | TTrue | TFalse | TNull

definition isJsonWs :: "nat \<Rightarrow> bool" where
  "isJsonWs c \<longleftrightarrow> c = 0x20 \<or> c = 0x09 \<or> c = 0x0A \<or> c = 0x0D"

definition isDigit :: "nat \<Rightarrow> bool" where
  "isDigit c \<longleftrightarrow> 0x30 \<le> c \<and> c \<le> 0x39"

definition hexval :: "nat \<Rightarrow> nat option" where
  "hexval c =
     (if 0x30 \<le> c \<and> c \<le> 0x39 then Some (c - 0x30)
      else if 0x41 \<le> c \<and> c \<le> 0x46 then Some (c - 0x41 + 10)
      else if 0x61 \<le> c \<and> c \<le> 0x66 then Some (c - 0x61 + 10)
      else None)"

text \<open>The single-character escapes: \<^verbatim>\<open>\" \\ \/ \b \f \n \r \t\<close>.\<close>

definition unescape :: "nat \<Rightarrow> nat option" where
  "unescape e =
     (if e = 0x22 then Some 0x22
      else if e = 0x5C then Some 0x5C
      else if e = 0x2F then Some 0x2F
      else if e = 0x62 then Some 0x08
      else if e = 0x66 then Some 0x0C
      else if e = 0x6E then Some 0x0A
      else if e = 0x72 then Some 0x0D
      else if e = 0x74 then Some 0x09
      else None)"

definition push :: "nat \<Rightarrow> (jsstring \<times> jsstring) option \<Rightarrow> (jsstring \<times> jsstring) option" where
  "push u r = map_option (\<lambda>(s, rest). (u # s, rest)) r"

text \<open>
  The body of a string literal, after its opening quote: the decoded string and the input
  after the closing quote. Control characters below U+0020 are not allowed unescaped.
\<close>

fun lex_string :: "jsstring \<Rightarrow> (jsstring \<times> jsstring) option" where
  "lex_string [] = None"
| "lex_string (c # cs) =
     (if c = 0x22 then Some ([], cs)
      else if c = 0x5C then
        (case cs of
           [] \<Rightarrow> None
         | e # r \<Rightarrow>
             if e = 0x75 then
               (case r of
                  h1 # h2 # h3 # h4 # r' \<Rightarrow>
                    (case (hexval h1, hexval h2, hexval h3, hexval h4) of
                       (Some a, Some b, Some d, Some f) \<Rightarrow>
                         push (4096 * a + 256 * b + 16 * d + f) (lex_string r')
                     | _ \<Rightarrow> None)
                | _ \<Rightarrow> None)
             else (case unescape e of None \<Rightarrow> None | Some u \<Rightarrow> push u (lex_string r)))
      else if c < 0x20 then None
      else push c (lex_string cs))"

text \<open>
  A number literal: \<^verbatim>\<open>-? (0 | [1-9][0-9]*) (\.[0-9]+)? ([eE][+-]?[0-9]+)?\<close>, the longest
  prefix of the input of that shape.
\<close>

definition lex_frac :: "jsstring \<Rightarrow> jsstring \<times> jsstring" where
  "lex_frac r =
     (case r of
        p # d # r' \<Rightarrow>
          if p = 0x2E \<and> isDigit d
          then (p # d # takeWhile isDigit r', dropWhile isDigit r')
          else ([], r)
      | _ \<Rightarrow> ([], r))"

definition lex_exp :: "jsstring \<Rightarrow> jsstring \<times> jsstring" where
  "lex_exp r =
     (case r of
        [] \<Rightarrow> ([], r)
      | e # r' \<Rightarrow>
          if e = 0x65 \<or> e = 0x45 then
            (let (sg, r'') =
                   (case r' of
                      [] \<Rightarrow> ([], r')
                    | s # t \<Rightarrow> if s = 0x2B \<or> s = 0x2D then ([s], t) else ([], r'))
             in case r'' of
                  [] \<Rightarrow> ([], r)
                | d # t \<Rightarrow>
                    if isDigit d
                    then (e # sg @ d # takeWhile isDigit t, dropWhile isDigit t)
                    else ([], r))
          else ([], r))"

definition lex_int :: "jsstring \<Rightarrow> (jsstring \<times> jsstring) option" where
  "lex_int r =
     (case r of
        [] \<Rightarrow> None
      | d # r1 \<Rightarrow>
          if \<not> isDigit d then None
          else if d = 0x30 then Some ([d], r1)
          else Some (d # takeWhile isDigit r1, dropWhile isDigit r1))"

definition lex_number :: "jsstring \<Rightarrow> (jsstring \<times> jsstring) option" where
  "lex_number cs =
     (let (sg, r0) = (case cs of [] \<Rightarrow> ([], cs) | c # r \<Rightarrow> if c = 0x2D then ([c], r) else ([], cs))
      in case lex_int r0 of
           None \<Rightarrow> None
         | Some (ip, r1) \<Rightarrow>
             (let (fp, r2) = lex_frac r1; (ep, r3) = lex_exp r2
              in Some (sg @ ip @ fp @ ep, r3)))"

text \<open>Every token consumes input, which is why the lexer below terminates.\<close>

lemma lex_string_length: "lex_string cs = Some (s, r) \<Longrightarrow> length r < Suc (length cs)"
proof (induction cs arbitrary: s r rule: lex_string.induct)
  case 1
  then show ?case by simp
next
  case (2 c cs)
  then show ?case
    by (fastforce simp: push_def split: if_splits list.splits option.splits)
qed

lemma lex_frac_length: "length (snd (lex_frac r)) \<le> length r"
  by (auto simp: lex_frac_def split: list.splits intro: le_SucI length_dropWhile_le)

lemma lex_exp_length: "length (snd (lex_exp r)) \<le> length r"
  by (auto simp: lex_exp_def Let_def split: list.splits prod.splits if_splits
      intro: le_SucI length_dropWhile_le)

lemma lex_int_length: "lex_int r = Some (ip, r') \<Longrightarrow> length r' < length r"
  by (auto simp: lex_int_def split: list.splits if_splits
      intro: le_imp_less_Suc length_dropWhile_le)

lemma lex_number_length: "lex_number cs = Some (l, r) \<Longrightarrow> length r < length cs"
proof -
  assume a: "lex_number cs = Some (l, r)"
  obtain sg r0 where
    sg: "(case cs of [] \<Rightarrow> ([], cs) | c # r \<Rightarrow> if c = 0x2D then ([c], r) else ([], cs)) = (sg, r0)"
    by fastforce
  then have l0: "length r0 \<le> length cs"
    by (auto split: list.splits if_splits)
  from a sg obtain ip r1 where ip: "lex_int r0 = Some (ip, r1)"
    by (auto simp: lex_number_def split: option.splits)
  from a sg ip have "r = snd (lex_exp (snd (lex_frac r1)))"
    by (auto simp: lex_number_def Let_def split: prod.splits)
  then have "length r \<le> length r1"
    using lex_exp_length [of "snd (lex_frac r1)"] lex_frac_length [of r1] by simp
  with lex_int_length [OF ip] l0 show ?thesis by simp
qed

text \<open>
  The lexer: JSON whitespace (space, TAB, LF, CR) separates tokens; any other code unit
  that starts no token is a syntax error (\<open>None\<close>).
\<close>

function tokenize :: "jsstring \<Rightarrow> token list option" where
  "tokenize [] = Some []"
| "tokenize (c # cs) =
     (if isJsonWs c then tokenize cs
      else if c = 0x7B then map_option (Cons TLBrace) (tokenize cs)
      else if c = 0x7D then map_option (Cons TRBrace) (tokenize cs)
      else if c = 0x5B then map_option (Cons TLBrack) (tokenize cs)
      else if c = 0x5D then map_option (Cons TRBrack) (tokenize cs)
      else if c = 0x3A then map_option (Cons TColon) (tokenize cs)
      else if c = 0x2C then map_option (Cons TComma) (tokenize cs)
      else if c = 0x22 then
        (case lex_string cs of
           None \<Rightarrow> None
         | Some (s, r) \<Rightarrow> map_option (Cons (TString s)) (tokenize r))
      else if c = 0x2D \<or> isDigit c then
        (case lex_number (c # cs) of
           None \<Rightarrow> None
         | Some (l, r) \<Rightarrow> map_option (Cons (TNumber l)) (tokenize r))
      else if startsWith (c # cs) (js ''true'') then map_option (Cons TTrue) (tokenize (drop 3 cs))
      else if startsWith (c # cs) (js ''false'') then map_option (Cons TFalse) (tokenize (drop 4 cs))
      else if startsWith (c # cs) (js ''null'') then map_option (Cons TNull) (tokenize (drop 3 cs))
      else None)"
  by pat_completeness auto
termination
proof (relation "measure length")
  show "wf (measure length)" by simp
qed (auto dest: lex_string_length lex_number_length)

declare tokenize.simps(2) [simp del]

text \<open>
  The parser, by recursive descent. Each call spends one unit of fuel; \<open>parse_elems\<close>
  reads the elements of an array after its opening bracket, \<open>parse_members\<close> the members
  of an object after its opening brace.
\<close>

fun parse_value :: "nat \<Rightarrow> token list \<Rightarrow> (json \<times> token list) option"
  and parse_elems :: "nat \<Rightarrow> token list \<Rightarrow> (json list \<times> token list) option"
  and parse_members :: "nat \<Rightarrow> token list \<Rightarrow> ((jsstring \<times> json) list \<times> token list) option"
where
  "parse_value 0 ts = None"
| "parse_value (Suc n) [] = None"
| "parse_value (Suc n) (t # ts) =
     (case t of
        TNull \<Rightarrow> Some (JNull, ts)
      | TTrue \<Rightarrow> Some (JBool True, ts)
      | TFalse \<Rightarrow> Some (JBool False, ts)
      | TNumber l \<Rightarrow> Some (JNum l, ts)
      | TString s \<Rightarrow> Some (JStr s, ts)
      | TLBrack \<Rightarrow>
          (case ts of
             TRBrack # ts' \<Rightarrow> Some (JArr [], ts')
           | _ \<Rightarrow> map_option (\<lambda>(vs, r). (JArr vs, r)) (parse_elems n ts))
      | TLBrace \<Rightarrow>
          (case ts of
             TRBrace # ts' \<Rightarrow> Some (JObj [], ts')
           | _ \<Rightarrow> map_option (\<lambda>(ms, r). (JObj ms, r)) (parse_members n ts))
      | _ \<Rightarrow> None)"
| "parse_elems 0 ts = None"
| "parse_elems (Suc n) ts =
     (case parse_value n ts of
        None \<Rightarrow> None
      | Some (v, r) \<Rightarrow>
          (case r of
             TComma # r' \<Rightarrow> map_option (\<lambda>(vs, r''). (v # vs, r'')) (parse_elems n r')
           | TRBrack # r' \<Rightarrow> Some ([v], r')
           | _ \<Rightarrow> None))"
| "parse_members 0 ts = None"
| "parse_members (Suc n) ts =
     (case ts of
        TString k # TColon # ts' \<Rightarrow>
          (case parse_value n ts' of
             None \<Rightarrow> None
           | Some (v, r) \<Rightarrow>
               (case r of
                  TComma # r' \<Rightarrow> map_option (\<lambda>(ms, r''). ((k, v) # ms, r'')) (parse_members n r')
                | TRBrace # r' \<Rightarrow> Some ([(k, v)], r')
                | _ \<Rightarrow> None))
      | _ \<Rightarrow> None)"

datatype error = SyntaxError | TypeError | ConfigError | IOError | PdfError | ModelError

text \<open>
  \<^verbatim>\<open>JSON.parse(text)\<close>: one value, with nothing but whitespace around it, or a
  \<^verbatim>\<open>SyntaxError\<close>. No parse of \<open>n\<close> tokens needs more than \<open>2 * n\<close> units of fuel
  (lemma \<open>parse_fuel\<close> below).
\<close>

definition JSON_parse :: "jsstring \<Rightarrow> error + json" where
  "JSON_parse text =
     (case tokenize text of
        None \<Rightarrow> Inl SyntaxError
      | Some ts \<Rightarrow>
          (case parse_value (2 * length ts) ts of
             Some (v, []) \<Rightarrow> Inr v
           | _ \<Rightarrow> Inl SyntaxError))"

section \<open>The lenient parser of model replies (geminiService.js)\<close>

text \<open>
  \<^verbatim>\<open>text.match(/```(?:json)?\s*([\s\S]*?)\s*```/i)\<close>, capture group 1.

  \<open>find_fence\<close> splits a string at the first three backticks. The match starts at the
  first fence of the text; the optional tag \<^verbatim>\<open>json\<close> (in any case of the ASCII letters)
  and then all whitespace are skipped greedily; the lazy group stops as early as it can,
  that is before the whitespace in front of the next fence. Giving back a tag or
  whitespace, or starting at a later fence, cannot find a closing fence that the first
  attempt does not find, since neither a tag nor whitespace holds a backtick: there is a
  match exactly if a second fence follows.
\<close>

fun find_fence :: "jsstring \<Rightarrow> (jsstring \<times> jsstring) option" where
  "find_fence [] = None"
| "find_fence (c # cs) =
     (if startsWith (c # cs) (js ''```'') then Some ([], drop 2 cs)
      else map_option (\<lambda>(b, a). (c # b, a)) (find_fence cs))"

definition has_json_tag :: "jsstring \<Rightarrow> bool" where
  "has_json_tag r =
     (case r of
        c1 # c2 # c3 # c4 # _ \<Rightarrow>
          (c1 = 0x6A \<or> c1 = 0x4A) \<and> (c2 = 0x73 \<or> c2 = 0x53) \<and>
          (c3 = 0x6F \<or> c3 = 0x4F) \<and> (c4 = 0x6E \<or> c4 = 0x4E)
      | _ \<Rightarrow> False)"

definition fence_match :: "jsstring \<Rightarrow> jsstring option" where
  "fence_match text =
     (case find_fence text of
        None \<Rightarrow> None
      | Some (_, r1) \<Rightarrow>
          (let r2 = (if has_json_tag r1 then drop 4 r1 else r1);
               r3 = dropWhile isWhiteSpace r2
           in case find_fence r3 of
                None \<Rightarrow> None
              | Some (inner, _) \<Rightarrow> Some (trimEnd inner)))"

text \<open>\<^verbatim>\<open>{ raw: String(text).trim() }\<close>\<close>

definition raw_object :: "jsstring \<Rightarrow> json" where
  "raw_object text = JObj [(js ''raw'', JStr (trim text))]"

text \<open>
  \<^verbatim>\<open>safeParseJson(text)\<close>. Both calls of \<^verbatim>\<open>JSON.parse\<close> stand in a
  \<^verbatim>\<open>try\<close> with an empty \<^verbatim>\<open>catch\<close>.
\<close>

definition safeParseJson :: "jsstring \<Rightarrow> error + json" where
  "safeParseJson text =
     (case JSON_parse text of
        Inr v \<Rightarrow> Inr v
      | Inl _ \<Rightarrow>
          (case fence_match text of
             None \<Rightarrow> Inr (raw_object text)
           | Some inner \<Rightarrow>
               (case JSON_parse inner of
                  Inr v \<Rightarrow> Inr v
                | Inl _ \<Rightarrow> Inr (raw_object text))))"

section \<open>The model provider and the file system\<close>

text \<open>
  The reply of the chat model as \<^verbatim>\<open>pickTextFromAiMessage\<close> reads it: the message may be
  missing; its \<^verbatim>\<open>content\<close> and \<^verbatim>\<open>text\<close> may each be missing; a content is a string, an
  array of parts, or another value (kept as what \<^verbatim>\<open>String\<close> makes of it). A part is a
  string or an object whose \<^verbatim>\<open>text\<close> may be missing.
\<close>

datatype part = PartString jsstring | PartObject "jsstring option"

datatype content = ContentString jsstring | ContentParts "part list" | ContentOther jsstring

record ai_message =
  msg_content :: "content option"
  msg_text :: "content option"

fun join :: "jsstring \<Rightarrow> jsstring list \<Rightarrow> jsstring" where
  "join sep [] = []"
| "join sep [x] = x"
| "join sep (x # y # ys) = x @ sep @ join sep (y # ys)"

definition part_text :: "part \<Rightarrow> jsstring" where
  "part_text c = (case c of PartString s \<Rightarrow> s | PartObject t \<Rightarrow> (case t of None \<Rightarrow> [] | Some s \<Rightarrow> s))"

definition pickTextFromAiMessage :: "ai_message option \<Rightarrow> jsstring" where
  "pickTextFromAiMessage aiMessage =
     (case aiMessage of
        None \<Rightarrow> []
      | Some m \<Rightarrow>
          (case (case msg_content m of Some c \<Rightarrow> Some c | None \<Rightarrow> msg_text m) of
             None \<Rightarrow> []
           | Some (ContentParts ps) \<Rightarrow> join [0x0A] (map part_text ps)
           | Some (ContentString s) \<Rightarrow> s
           | Some (ContentOther s) \<Rightarrow> s))"

text \<open>
  The reply of the vision model: what \<^verbatim>\<open>result.response?.text?.()\<close> gives and the text
  of the first part of the first candidate, each possibly missing.
\<close>

record vision_response =
  response_text :: "jsstring option"
  candidate_text :: "jsstring option"

text \<open>
  The outside world of one request: whether \<^verbatim>\<open>GEMINI_API_KEY\<close> is set, and what each
  external call returns or throws (\<open>Inl\<close>). \<open>pdfParse\<close> stands for loading and running the
  PDF parser and reading \<^verbatim>\<open>data?.text\<close>; \<open>generateContent\<close> takes the instruction, the
  media type and the bytes (sent base64-encoded).
\<close>

record env =
  api_key_set :: bool
  chat_invoke :: "jsstring \<Rightarrow> error + ai_message option"
  readFile :: "jsstring \<Rightarrow> error + nat list"
  readFile_utf8 :: "jsstring \<Rightarrow> error + jsstring"
  pdfParse :: "nat list \<Rightarrow> error + jsstring option"
  generateContent :: "jsstring \<Rightarrow> jsstring \<Rightarrow> nat list \<Rightarrow> error + vision_response"
  date_now :: nat

text \<open>The calls made to the model provider, in order.\<close>

datatype call = ChatCall jsstring | VisionCall jsstring jsstring "nat list"

type_synonym 'a outcome = "(error + 'a) \<times> call list"

section \<open>Field extraction and question answering (geminiService.js)\<close>

definition extractFields_prompt :: "jsstring \<Rightarrow> jsstring" where
  "extractFields_prompt documentText =
     js ''Extract the following fields from this loan document. Respond ONLY with a valid JSON object with these exact keys: \"Customer Name\", \"Loan Amount\", \"PAN/Aadhaar\", \"Loan Tenure\", \"Collateral Type\". If a field is missing, set it to an empty string.''
     @ [0x0A, 0x0A] @ js ''Document:'' @ [0x0A] @ documentText"

definition extractFields :: "env \<Rightarrow> jsstring \<Rightarrow> json outcome" where
  "extractFields e documentText =
     (if \<not> api_key_set e then (Inl ConfigError, [])
      else
        (let prompt = extractFields_prompt documentText
         in case chat_invoke e prompt of
              Inl err \<Rightarrow> (Inl err, [ChatCall prompt])
            | Inr ai \<Rightarrow> (safeParseJson (pickTextFromAiMessage ai), [ChatCall prompt])))"

record turn =
  q :: jsstring
  a :: jsstring
  ts :: nat

text \<open>\<^verbatim>\<open>xs.slice(start)\<close>: a negative start counts from the end.\<close>

definition slice :: "int \<Rightarrow> 'a list \<Rightarrow> 'a list" where
  "slice start xs =
     (let len = int (length xs);
          k = (if start < 0 then max (len + start) 0 else min start len)
      in drop (nat k) xs)"

definition format_turn :: "nat \<Rightarrow> turn \<Rightarrow> jsstring" where
  "format_turn idx it =
     js ''Turn '' @ decimal (idx + 1) @ js '':'' @ [0x0A] @
     js ''Q: '' @ orElse (Some (q it)) [] @ [0x0A] @
     js ''A: '' @ orElse (Some (a it)) []"

definition formatHistoryForPrompt :: "turn list \<Rightarrow> jsstring" where
  "formatHistoryForPrompt historyItems =
     (if length historyItems = 0 then []
      else
        (let lines = join [0x0A, 0x0A]
               (map (\<lambda>(idx, it). format_turn idx it) (enumerate 0 (slice (- 12) historyItems)))
         in js ''Previous Q&A (most recent last):'' @ [0x0A] @ lines @ [0x0A, 0x0A]))"

definition answerQuestion_prompt :: "jsstring \<Rightarrow> jsstring \<Rightarrow> turn list \<Rightarrow> jsstring" where
  "answerQuestion_prompt documentText question history =
     js ''You are a helpful loan document assistant. Use the document and the prior Q&A context to answer.''
     @ [0x0A, 0x0A] @ js ''Document:'' @ [0x0A] @ documentText @ [0x0A, 0x0A]
     @ formatHistoryForPrompt history @ js ''Question:'' @ [0x0A] @ question"

definition answerQuestion :: "env \<Rightarrow> jsstring \<Rightarrow> jsstring \<Rightarrow> turn list \<Rightarrow> jsstring outcome" where
  "answerQuestion e documentText question history =
     (if \<not> api_key_set e then (Inl ConfigError, [])
      else
        (let prompt = answerQuestion_prompt documentText question history
         in case chat_invoke e prompt of
              Inl err \<Rightarrow> (Inl err, [ChatCall prompt])
            | Inr ai \<Rightarrow> (Inr (trim (pickTextFromAiMessage ai)), [ChatCall prompt])))"

section \<open>Text extraction (geminiService.js)\<close>

definition pdf_instruction :: jsstring where
  "pdf_instruction =
     js ''Extract all legible text from every page of this PDF as plain text. Keep reading order if possible.''"

definition image_instruction :: jsstring where
  "image_instruction = js ''Extract all visible text content from this image as plain text.''"

text \<open>
  The three statements that end both vision branches: \<^verbatim>\<open>model.generateContent\<close>, the
  choice of the reply text and \<^verbatim>\<open>String(text).trim()\<close>.
\<close>

definition generate_text :: "env \<Rightarrow> jsstring \<Rightarrow> jsstring \<Rightarrow> nat list \<Rightarrow> jsstring outcome" where
  "generate_text e instruction mimeType bytes =
     (case generateContent e instruction mimeType bytes of
        Inl err \<Rightarrow> (Inl err, [VisionCall instruction mimeType bytes])
      | Inr result \<Rightarrow>
          (let text = orElse (response_text result) (orElse (candidate_text result) [])
           in (Inr (trim text), [VisionCall instruction mimeType bytes])))"

text \<open>
  \<^verbatim>\<open>extractTextFromFile(filePath, mimeType)\<close>; a \<^verbatim>\<open>null\<close> or \<^verbatim>\<open>undefined\<close>
  media type is \<open>None\<close>. \<^verbatim>\<open>getGenAi\<close> throws when the API key is not set.
\<close>

definition extractTextFromFile :: "env \<Rightarrow> jsstring \<Rightarrow> jsstring option \<Rightarrow> jsstring outcome" where
  "extractTextFromFile e filePath mimeType =
     (let lower = toLowerCase (orElse mimeType [])
      in if includes_js lower (js ''pdf'') then
           (case readFile e filePath of
              Inl err \<Rightarrow> (Inl err, [])
            | Inr buffer \<Rightarrow>
                (let native =
                       (case pdfParse e buffer of
                          Inl err \<Rightarrow> None
                        | Inr data \<Rightarrow>
                            (let parsedText = trim (orElse data [])
                             in if parsedText \<noteq> [] \<and> length parsedText > 50
                                then Some parsedText else None))
                 in case native of
                      Some parsedText \<Rightarrow> (Inr parsedText, [])
                    | None \<Rightarrow>
                        if \<not> api_key_set e then (Inl ConfigError, [])
                        else generate_text e pdf_instruction (js ''application/pdf'') buffer))
         else if startsWith lower (js ''image/'') then
           (if \<not> api_key_set e then (Inl ConfigError, [])
            else
              (case readFile e filePath of
                 Inl err \<Rightarrow> (Inl err, [])
               | Inr bytes \<Rightarrow> generate_text e image_instruction (orElse mimeType []) bytes))
         else
           (case readFile_utf8 e filePath of
              Inl err \<Rightarrow> (Inr [], [])
            | Inr text \<Rightarrow> (Inr text, [])))"

section \<open>The request handlers (server)\<close>

text \<open>
  The process-wide \<^verbatim>\<open>lastDocumentText\<close> and \<^verbatim>\<open>lastExtracted\<close> (initially \<^verbatim>\<open>""\<close>
  and \<^verbatim>\<open>null\<close>), and for every session its \<^verbatim>\<open>req.session.history\<close>, \<open>None\<close> while it
  is undefined.
\<close>

record server =
  lastDocumentText :: jsstring
  lastExtracted :: json
  sessions :: "nat \<Rightarrow> turn list option"

definition initial :: server where
  "initial = \<lparr>lastDocumentText = [], lastExtracted = JNull, sessions = (\<lambda>_. None)\<rparr>"

datatype reply =
    ErrorReply jsstring
  | ExtractedReply json
  | AnswerReply jsstring
  | HistoryReply "turn list"
  | OkReply

record response =
  status :: nat
  body :: reply

text \<open>\<^verbatim>\<open>req.file\<close> as multer leaves it.\<close>

record upload_file =
  path :: jsstring
  mimetype :: jsstring


text \<open>
  \<^verbatim>\<open>POST /api/upload\<close> for the session \<open>sid\<close>: the response, the state afterwards and
  the calls made to the model. The \<^verbatim>\<open>catch\<close> answers 500 and keeps the state as it is
  at the \<^verbatim>\<open>throw\<close>.
\<close>

definition upload :: "env \<Rightarrow> server \<Rightarrow> nat \<Rightarrow> upload_file option \<Rightarrow> response \<times> server \<times> call list" where
  "upload e st sid file =
     (case file of
        None \<Rightarrow> (\<lparr>status = 400, body = ErrorReply (js ''No file uploaded'')\<rparr>, st, [])
      | Some f \<Rightarrow>
          (case extractTextFromFile e (path f) (Some (mimetype f)) of
             (Inl err, cs) \<Rightarrow>
               (\<lparr>status = 500, body = ErrorReply (js ''Failed to process upload'')\<rparr>, st, cs)
           | (Inr text, cs) \<Rightarrow>
               if text = [] \<or> trim text = [] then
                 (\<lparr>status = 400, body = ErrorReply (js ''Uploaded file is empty or unreadable'')\<rparr>,
                  st, cs)
               else
                 (let st1 = st\<lparr>lastDocumentText := text\<rparr>
                  in case extractFields e text of
                       (Inl err, cs') \<Rightarrow>
                         (\<lparr>status = 500, body = ErrorReply (js ''Failed to process upload'')\<rparr>,
                          st1, cs @ cs')
                     | (Inr extracted, cs') \<Rightarrow>
                         (let st2 = st1\<lparr>lastExtracted := extracted\<rparr>;
                              st3 = st2\<lparr>sessions := (sessions st2)(sid := Some [])\<rparr>
                          in (\<lparr>status = 200, body = ExtractedReply extracted\<rparr>, st3, cs @ cs')))))"

text \<open>
  What \<^verbatim>\<open>req.body && req.body.question\<close> can be: missing, a string, another falsy value
  (\<^verbatim>\<open>null\<close>, \<^verbatim>\<open>false\<close>, \<^verbatim>\<open>0\<close>) or another truthy value (a number, \<^verbatim>\<open>true\<close>, an
  array, an object), which has no \<^verbatim>\<open>trim\<close> method.
\<close>

datatype body_value = Absent | StringValue jsstring | FalsyValue | TruthyValue

text \<open>\<^verbatim>\<open>POST /api/ask\<close> for the session \<open>sid\<close>.\<close>

definition ask :: "env \<Rightarrow> server \<Rightarrow> nat \<Rightarrow> body_value \<Rightarrow> response \<times> server \<times> call list" where
  "ask e st sid v =
     (case (case v of
              Absent \<Rightarrow> Some []
            | FalsyValue \<Rightarrow> Some []
            | StringValue s \<Rightarrow> Some s
            | TruthyValue \<Rightarrow> None) of
        None \<Rightarrow> (\<lparr>status = 500, body = ErrorReply (js ''Failed to answer question'')\<rparr>, st, [])
      | Some question \<Rightarrow>
          if trim question = [] then
            (\<lparr>status = 400, body = ErrorReply (js ''Missing question'')\<rparr>, st, [])
          else if lastDocumentText st = [] then
            (\<lparr>status = 400, body = ErrorReply (js ''No document uploaded yet'')\<rparr>, st, [])
          else
            (let history = (case sessions st sid of None \<Rightarrow> [] | Some h \<Rightarrow> h)
             in case answerQuestion e (lastDocumentText st) question history of
                  (Inl err, cs) \<Rightarrow>
                    (\<lparr>status = 500, body = ErrorReply (js ''Failed to answer question'')\<rparr>, st, cs)
                | (Inr answer, cs) \<Rightarrow>
                    (let h = (case sessions st sid of None \<Rightarrow> [] | Some h \<Rightarrow> h);
                         st1 = st\<lparr>sessions := (sessions st)
                                 (sid := Some (h @ [\<lparr>q = question, a = answer, ts = date_now e\<rparr>]))\<rparr>
                     in (\<lparr>status = 200, body = AnswerReply answer\<rparr>, st1, cs))))"

text \<open>\<^verbatim>\<open>GET /api/history\<close> and \<^verbatim>\<open>POST /api/history/clear\<close>.\<close>

definition get_history :: "server \<Rightarrow> nat \<Rightarrow> response \<times> server" where
  "get_history st sid =
     (\<lparr>status = 200, body = HistoryReply (case sessions st sid of None \<Rightarrow> [] | Some h \<Rightarrow> h)\<rparr>, st)"

definition history_clear :: "server \<Rightarrow> nat \<Rightarrow> response \<times> server" where
  "history_clear st sid =
     (\<lparr>status = 200, body = OkReply\<rparr>, st\<lparr>sessions := (sessions st)(sid := Some [])\<rparr>)"

section \<open>Example requests\<close>

text \<open>
  A text upload on a server without API key: the file is read, the model cannot be
  reached.
\<close>

definition jane_env :: env where
  "jane_env =
     \<lparr>api_key_set = False,
      chat_invoke = (\<lambda>_. Inl ModelError),
      readFile = (\<lambda>_. Inl IOError),
      readFile_utf8 = (\<lambda>_. Inr (js ''Name: Jane Doe, Loan: 5000'')),
      pdfParse = (\<lambda>_. Inl PdfError),
      generateContent = (\<lambda>_ _ _. Inl ModelError),
      date_now = 0\<rparr>"

text \<open>A server that holds a document, its fields and one turn of history.\<close>

definition busy :: server where
  "busy =
     \<lparr>lastDocumentText = js ''Name: John Roe, Loan: 70'',
      lastExtracted = JObj [(js ''Customer Name'', JStr (js ''John Roe''))],
      sessions = (\<lambda>_. Some [\<lparr>q = js ''Who?'', a = js ''John Roe'', ts = 1\<rparr>])\<rparr>"

text \<open>
  A PDF upload on a server with API key: the native parser gives \<open>native\<close>, the vision
  model gives \<open>reply\<close>.
\<close>

definition pdf_env :: "jsstring \<Rightarrow> vision_response \<Rightarrow> env" where
  "pdf_env native reply =
     \<lparr>api_key_set = True,
      chat_invoke = (\<lambda>_. Inl ModelError),
      readFile = (\<lambda>_. Inr [0x25, 0x50, 0x44, 0x46]),
      readFile_utf8 = (\<lambda>_. Inl IOError),
      pdfParse = (\<lambda>_. Inr (Some native)),
      generateContent = (\<lambda>_ _ _. Inr reply),
      date_now = 0\<rparr>"

text \<open>A text of exactly 50 code units.\<close>

definition text50 :: jsstring where
  "text50 = js ''Loan agreement between Jane Doe and Acme Bank Ltd.''"

text \<open>A server with API key whose chat model answers every prompt with \<open>reply\<close>.\<close>

definition reply_env :: "jsstring \<Rightarrow> env" where
  "reply_env reply =
     \<lparr>api_key_set = True,
      chat_invoke = (\<lambda>_. Inr (Some \<lparr>msg_content = Some (ContentString reply), msg_text = None\<rparr>)),
      readFile = (\<lambda>_. Inl IOError),
      readFile_utf8 = (\<lambda>_. Inr (js ''Name: Jane Doe, Loan: 5000'')),
      pdfParse = (\<lambda>_. Inl PdfError),
      generateContent = (\<lambda>_ _ _. Inl ModelError),
      date_now = 0\<rparr>"

text \<open>A history of twenty turns, numbered 1 to 20.\<close>

definition turn_no :: "nat \<Rightarrow> turn" where
  "turn_no n = \<lparr>q = js ''Q'' @ decimal n, a = js ''A'' @ decimal n, ts = n\<rparr>"

definition twenty_turns :: "turn list" where
  "twenty_turns = map turn_no [1..<21]"

text \<open>
  The history block of the prompt for these twenty turns: the turns 9 to 20, numbered
  1 to 12.
\<close>

definition twenty_block :: jsstring where
  "twenty_block =
      js ''Previous Q&A (most recent last):'' @ [0x0A] @
      js ''Turn 1:'' @ [0x0A] @ js ''Q: Q9'' @ [0x0A] @ js ''A: A9'' @ [0x0A, 0x0A] @
      js ''Turn 2:'' @ [0x0A] @ js ''Q: Q10'' @ [0x0A] @ js ''A: A10'' @ [0x0A, 0x0A] @
      js ''Turn 3:'' @ [0x0A] @ js ''Q: Q11'' @ [0x0A] @ js ''A: A11'' @ [0x0A, 0x0A] @
      js ''Turn 4:'' @ [0x0A] @ js ''Q: Q12'' @ [0x0A] @ js ''A: A12'' @ [0x0A, 0x0A] @
      js ''Turn 5:'' @ [0x0A] @ js ''Q: Q13'' @ [0x0A] @ js ''A: A13'' @ [0x0A, 0x0A] @
      js ''Turn 6:'' @ [0x0A] @ js ''Q: Q14'' @ [0x0A] @ js ''A: A14'' @ [0x0A, 0x0A] @
      js ''Turn 7:'' @ [0x0A] @ js ''Q: Q15'' @ [0x0A] @ js ''A: A15'' @ [0x0A, 0x0A] @
      js ''Turn 8:'' @ [0x0A] @ js ''Q: Q16'' @ [0x0A] @ js ''A: A16'' @ [0x0A, 0x0A] @
      js ''Turn 9:'' @ [0x0A] @ js ''Q: Q17'' @ [0x0A] @ js ''A: A17'' @ [0x0A, 0x0A] @
      js ''Turn 10:'' @ [0x0A] @ js ''Q: Q18'' @ [0x0A] @ js ''A: A18'' @ [0x0A, 0x0A] @
      js ''Turn 11:'' @ [0x0A] @ js ''Q: Q19'' @ [0x0A] @ js ''A: A19'' @ [0x0A, 0x0A] @
      js ''Turn 12:'' @ [0x0A] @ js ''Q: Q20'' @ [0x0A] @ js ''A: A20'' @ [0x0A, 0x0A]"

text \<open>
  A PDF upload on a server without API key: the native parser gives \<open>native\<close>, the vision
  model cannot be reached.
\<close>

definition keyless_pdf_env :: "jsstring \<Rightarrow> env" where
  "keyless_pdf_env native =
     \<lparr>api_key_set = False,
      chat_invoke = (\<lambda>_. Inl ModelError),
      readFile = (\<lambda>_. Inr [0x25, 0x50, 0x44, 0x46]),
      readFile_utf8 = (\<lambda>_. Inl IOError),
      pdfParse = (\<lambda>_. Inr (Some native)),
      generateContent = (\<lambda>_ _ _. Inl ModelError),
      date_now = 0\<rparr>"

text \<open>The fenced reply of the field extractor and the object it holds.\<close>

definition jane_json :: jsstring where
  "jane_json =
     js ''{\"Customer Name\":\"Jane Doe\",\"Loan Amount\":\"5000\",\"PAN/Aadhaar\":\"\",\"Loan Tenure\":\"\",\"Collateral Type\":\"\"}''"

definition fenced_reply :: jsstring where
  "fenced_reply = js ''```json'' @ [0x0A] @ jane_json @ [0x0A] @ js ''```''"

definition jane_fields :: json where
  "jane_fields =
     JObj [(js ''Customer Name'', JStr (js ''Jane Doe'')), (js ''Loan Amount'', JStr (js ''5000'')),
           (js ''PAN/Aadhaar'', JStr []), (js ''Loan Tenure'', JStr []),
           (js ''Collateral Type'', JStr [])]"

section \<open>Evaluation\<close>

text \<open>The equations that evaluate the model on a concrete input.\<close>

lemmas string_evals = js_def isWhiteSpace_def trimStart_def trimEnd_def trim_def
  toLowerCase_def lowerChar_def orElse_def

lemmas parse_numeral_fuel =
  parse_value.simps(2,3) [of "pred_numeral k", folded numeral_eq_Suc]
  parse_elems.simps(2) [of "pred_numeral k", folded numeral_eq_Suc]
  parse_members.simps(2) [of "pred_numeral k", folded numeral_eq_Suc]
  for k

lemmas json_evals = parse_numeral_fuel isJsonWs_def isDigit_def hexval_def unescape_def push_def lex_frac_def
  lex_exp_def lex_int_def lex_number_def tokenize.simps(2) JSON_parse_def has_json_tag_def
  fence_match_def raw_object_def safeParseJson_def

section \<open>Adequacy of the model\<close>

text \<open>
  The parser consumes input, and the fuel that \<open>JSON_parse\<close> gives it is enough: more
  fuel never changes the result.
\<close>

lemma parse_rest:
  "(\<forall>toks v r. parse_value n toks = Some (v, r) \<longrightarrow> length r < length toks) \<and>
   (\<forall>toks vs r. parse_elems n toks = Some (vs, r) \<longrightarrow> length r < length toks) \<and>
   (\<forall>toks ms r. parse_members n toks = Some (ms, r) \<longrightarrow> length r < length toks)"
proof (induction n)
  case 0
  show ?case by simp
next
  case (Suc n)
  have v: "length r < length toks" if "parse_value (Suc n) toks = Some (v, r)" for toks v r
  proof (cases toks)
    case Nil
    with that show ?thesis by simp
  next
    case (Cons t rest)
    with that Suc show ?thesis
      by (cases t) (fastforce split: list.splits token.splits)+
  qed
  have e: "length r < length toks" if "parse_elems (Suc n) toks = Some (vs, r)" for toks vs r
    using that Suc
    by (fastforce split: option.splits list.splits token.splits)
  have m: "length r < length toks" if "parse_members (Suc n) toks = Some (ms, r)" for toks ms r
    using that Suc
    by (fastforce split: option.splits list.splits token.splits)
  from v e m show ?case by blast
qed

lemma parse_value_rest: "parse_value n toks = Some (v, r) \<Longrightarrow> length r < length toks"
  using parse_rest [of n] by blast

lemma parse_fuel_all:
  "(\<forall>toks m. 2 * length toks \<le> n \<and> 2 * length toks \<le> m \<longrightarrow>
      parse_value n toks = parse_value m toks) \<and>
   (\<forall>toks m. 2 * length toks + 1 \<le> n \<and> 2 * length toks + 1 \<le> m \<longrightarrow>
      parse_elems n toks = parse_elems m toks) \<and>
   (\<forall>toks m. 2 * length toks + 1 \<le> n \<and> 2 * length toks + 1 \<le> m \<longrightarrow>
      parse_members n toks = parse_members m toks)"
proof (induction n)
  case 0
  have "parse_value 0 [] = parse_value m []" for m
    by (cases m) simp_all
  then show ?case by simp
next
  case (Suc n)
  note ihv = Suc [THEN conjunct1, rule_format]
  note ihe = Suc [THEN conjunct2, THEN conjunct1, rule_format]
  note ihm = Suc [THEN conjunct2, THEN conjunct2, rule_format]
  have v: "parse_value (Suc n) toks = parse_value m toks"
    if "2 * length toks \<le> Suc n" "2 * length toks \<le> m" for toks m
  proof (cases toks)
    case Nil
    then show ?thesis by (cases m) simp_all
  next
    case (Cons t rest)
    with that obtain m' where m: "m = Suc m'"
      by (cases m) auto
    from that Cons m have "2 * length rest + 1 \<le> n" "2 * length rest + 1 \<le> m'"
      by simp_all
    then have pe: "parse_elems n rest = parse_elems m' rest"
      and pm: "parse_members n rest = parse_members m' rest"
      by (intro ihe ihm; simp)+
    show ?thesis
      unfolding Cons m parse_value.simps pe pm by (rule refl)
  qed
  have e: "parse_elems (Suc n) toks = parse_elems m toks"
    if "2 * length toks + 1 \<le> Suc n" "2 * length toks + 1 \<le> m" for toks m
  proof -
    from that obtain m' where m: "m = Suc m'"
      by (cases m) auto
    from that m have pv: "parse_value n toks = parse_value m' toks"
      by (intro ihv) simp
    show ?thesis
    proof (cases "parse_value m' toks")
      case None
      with pv m show ?thesis by simp
    next
      case (Some x)
      obtain v r where x: "x = (v, r)" by (cases x)
      from parse_value_rest [of m' toks v r] Some x have l: "length r < length toks"
        by simp
      have "parse_elems n r' = parse_elems m' r'" if "r = t # r'" for t r'
        using that l \<open>2 * length toks + 1 \<le> Suc n\<close> \<open>2 * length toks + 1 \<le> m\<close> m
        by (intro ihe) simp
      with pv m Some x show ?thesis
        by (simp split: list.splits token.splits)
    qed
  qed
  have mm: "parse_members (Suc n) toks = parse_members m toks"
    if "2 * length toks + 1 \<le> Suc n" "2 * length toks + 1 \<le> m" for toks m
  proof -
    from that obtain m' where m: "m = Suc m'"
      by (cases m) auto
    have step: "(case parse_value n toks' of None \<Rightarrow> None
          | Some (v, r) \<Rightarrow>
              (case r of
                 TComma # r' \<Rightarrow> map_option (\<lambda>(ms, r''). ((k, v) # ms, r'')) (parse_members n r')
               | TRBrace # r' \<Rightarrow> Some ([(k, v)], r')
               | _ \<Rightarrow> None)) =
         (case parse_value m' toks' of None \<Rightarrow> None
          | Some (v, r) \<Rightarrow>
              (case r of
                 TComma # r' \<Rightarrow> map_option (\<lambda>(ms, r''). ((k, v) # ms, r'')) (parse_members m' r')
               | TRBrace # r' \<Rightarrow> Some ([(k, v)], r')
               | _ \<Rightarrow> None))"
      if toks: "toks = t1 # t2 # toks'" for t1 t2 toks' k
    proof -
      from \<open>2 * length toks + 1 \<le> Suc n\<close> \<open>2 * length toks + 1 \<le> m\<close> m toks
      have pv: "parse_value n toks' = parse_value m' toks'"
        by (intro ihv) simp
      show ?thesis
      proof (cases "parse_value m' toks'")
        case None
        with pv show ?thesis by simp
      next
        case (Some x)
        obtain v r where x: "x = (v, r)" by (cases x)
        from parse_value_rest [of m' toks' v r] Some x have l: "length r < length toks'"
          by simp
        have "parse_members n r' = parse_members m' r'" if "r = t # r'" for t r'
          using that l toks \<open>2 * length toks + 1 \<le> Suc n\<close> \<open>2 * length toks + 1 \<le> m\<close> m
          by (intro ihm) simp
        with pv Some x show ?thesis
          by (simp split: list.splits token.splits)
      qed
    qed
    show ?thesis
    proof (cases "\<exists>k toks'. toks = TString k # TColon # toks'")
      case True
      then obtain k toks' where t: "toks = TString k # TColon # toks'"
        by blast
      show ?thesis
        unfolding m t using step [OF t, of k] by simp
    next
      case False
      then have "parse_members (Suc n) toks = None" "parse_members (Suc m') toks = None"
        by (auto split: list.splits token.splits)
      then show ?thesis
        unfolding m by simp
    qed
  qed
  from v e mm show ?case by blast
qed

lemma parse_fuel:
  assumes "2 * length toks \<le> n"
  shows "parse_value n toks = parse_value (2 * length toks) toks"
  using assms parse_fuel_all [of n, THEN conjunct1, rule_format, of toks "2 * length toks"]
  by simp

text \<open>
  \<open>startsWith\<close>, \<open>includes_js\<close> and \<open>find_fence\<close> are the prefix test, the substring test
  and the search for three consecutive backticks.
\<close>

lemma startsWith_iff: "startsWith s p \<longleftrightarrow> (\<exists>r. s = p @ r)"
  by (induction s p rule: startsWith.induct) auto

lemma includes_js_iff: "includes_js s p \<longleftrightarrow> (\<exists>pre post. s = pre @ p @ post)"
proof (induction s)
  case Nil
  then show ?case by auto
next
  case (Cons c s)
  show ?case
  proof
    assume "includes_js (c # s) p"
    then consider "startsWith (c # s) p" | "includes_js s p"
      by auto
    then show "\<exists>pre post. c # s = pre @ p @ post"
    proof cases
      case 1
      then obtain r where "c # s = p @ r"
        by (auto simp: startsWith_iff)
      then have "c # s = [] @ p @ r" by simp
      then show ?thesis by blast
    next
      case 2
      with Cons obtain pre post where "s = pre @ p @ post"
        by blast
      then have "c # s = (c # pre) @ p @ post" by simp
      then show ?thesis by blast
    qed
  next
    assume "\<exists>pre post. c # s = pre @ p @ post"
    then obtain pre post where d: "c # s = pre @ p @ post"
      by blast
    show "includes_js (c # s) p"
    proof (cases pre)
      case Nil
      with d have "startsWith (c # s) p"
        by (auto simp: startsWith_iff)
      then show ?thesis by simp
    next
      case (Cons x pre')
      with d have "s = pre' @ p @ post" by simp
      with Cons.IH have "includes_js s p" by blast
      then show ?thesis by simp
    qed
  qed
qed

lemma find_fence_none_iff: "find_fence s = None \<longleftrightarrow> \<not> includes_js s (js ''```'')"
proof (induction s)
  case Nil
  show ?case by (simp add: js_def)
next
  case (Cons c s)
  then show ?case by auto
qed

section \<open>Properties of the handlers\<close>

lemma trim_all_ws:
  assumes "\<forall>c\<in>set s. isWhiteSpace c"
  shows "trim s = []"
proof -
  from assms have d: "dropWhile isWhiteSpace s = []"
    by (induction s) simp_all
  show ?thesis
    by (simp only: trim_def trimStart_def trimEnd_def d rev.simps dropWhile.simps)
qed

text \<open>
  C8: \<^verbatim>\<open>POST /api/history/clear\<close> answers \<^verbatim>\<open>{ok: true}\<close>, makes the history of the
  requesting session the empty list and changes nothing else: the document text, the
  extracted fields and the history of every other session are as before, whatever the
  state was.
\<close>

theorem history_clear_frame:
  "history_clear st sid =
     (\<lparr>status = 200, body = OkReply\<rparr>, st\<lparr>sessions := (sessions st)(sid := Some [])\<rparr>)
   \<and> lastDocumentText (snd (history_clear st sid)) = lastDocumentText st
   \<and> lastExtracted (snd (history_clear st sid)) = lastExtracted st
   \<and> sessions (snd (history_clear st sid)) = (sessions st)(sid := Some [])
   \<and> get_history (snd (history_clear st sid)) sid =
       (\<lparr>status = 200, body = HistoryReply []\<rparr>, snd (history_clear st sid))"
  by (simp add: history_clear_def get_history_def)

text \<open>
  C9: a question string that holds nothing but whitespace (spaces, newlines, any code
  unit that \<^verbatim>\<open>trim\<close> removes; the empty string too) is answered with 400
  \<^verbatim>\<open>Missing question\<close>; the model is not called and the state is unchanged.
\<close>

theorem ask_whitespace_question:
  assumes "\<forall>c\<in>set s. isWhiteSpace c"
  shows "ask e st sid (StringValue s) =
           (\<lparr>status = 400, body = ErrorReply (js ''Missing question'')\<rparr>, st, [])"
  using assms by (simp add: ask_def trim_all_ws)

theorem ask_whitespace_question_witness:
  "isWhiteSpace 0x20 \<and> isWhiteSpace 0x0A \<and> isWhiteSpace 0x09
   \<and> ask jane_env busy 0 (StringValue [0x20, 0x0A, 0x20, 0x09]) =
       (\<lparr>status = 400, body = ErrorReply (js ''Missing question'')\<rparr>, busy, [])"
proof -
  have h: "\<forall>c\<in>set ([0x20, 0x0A, 0x20, 0x09]::nat list). isWhiteSpace c"
    by (simp add: isWhiteSpace_def)
  show ?thesis
    using ask_whitespace_question [OF h, of jane_env busy 0] by (simp add: isWhiteSpace_def)
qed

text \<open>
  C7 as stated fails: before any upload, a question that is a truthy value but not a
  string (the body \<^verbatim>\<open>{"question": 5}\<close>) has no \<^verbatim>\<open>trim\<close>; the handler catches the
  \<^verbatim>\<open>TypeError\<close> and answers 500, not 400.
\<close>

theorem ask_non_string_counterexample:
  "lastDocumentText initial = []
   \<and> ask jane_env initial 7 TruthyValue =
       (\<lparr>status = 500, body = ErrorReply (js ''Failed to answer question'')\<rparr>, initial, [])"
  by (simp add: ask_def initial_def)

text \<open>
  C7, amended: whenever the question is empty (missing, another falsy value, or a string
  that trims to nothing) or no document has been uploaded, \<^verbatim>\<open>POST /api/ask\<close> answers
  with an error, calls no model and leaves the state (the history too) as it is; the
  status is 400, except for a truthy question that is not a string, where it is 500. So
  it is on the initial state, before any upload.
\<close>

theorem ask_precondition:
  assumes "v = Absent \<or> v = FalsyValue \<or> (\<exists>s. v = StringValue s \<and> trim s = [])
           \<or> lastDocumentText st = []"
  shows "snd (ask e st sid v) = (st, [])
         \<and> status (fst (ask e st sid v)) = (if v = TruthyValue then 500 else 400)
         \<and> body (fst (ask e st sid v)) =
             ErrorReply
               (case v of
                  TruthyValue \<Rightarrow> js ''Failed to answer question''
                | StringValue s \<Rightarrow>
                    if trim s = [] then js ''Missing question'' else js ''No document uploaded yet''
                | _ \<Rightarrow> js ''Missing question'')"
  using assms by (cases v) (auto simp: ask_def trim_def trimStart_def trimEnd_def)

theorem ask_precondition_witness:
  "lastDocumentText initial = []
   \<and> status (fst (ask jane_env initial 7 (StringValue (js ''What is the loan amount?'')))) = 400
   \<and> snd (ask jane_env initial 7 (StringValue (js ''What is the loan amount?''))) = (initial, [])
   \<and> status (fst (ask jane_env busy 7 Absent)) = 400
   \<and> snd (ask jane_env busy 7 Absent) = (busy, [])"
proof -
  have b: "lastDocumentText initial = []"
    by (simp add: initial_def)
  have c: "Absent = Absent \<or> Absent = FalsyValue \<or> (\<exists>s. Absent = StringValue s \<and> trim s = [])
           \<or> lastDocumentText busy = []"
    by simp
  show ?thesis
    using b ask_precondition [of "StringValue (js ''What is the loan amount?'')" initial jane_env 7]
      ask_precondition [OF c, of jane_env 7]
    by simp
qed

text \<open>
  A truthy question that is not a string has no \<^verbatim>\<open>trim\<close>: the handler catches the
  \<^verbatim>\<open>TypeError\<close> and answers 500, again without a model call or a change of state.
\<close>

lemma ask_not_a_string:
  "ask e st sid TruthyValue =
     (\<lparr>status = 500, body = ErrorReply (js ''Failed to answer question'')\<rparr>, st, [])"
  by (simp add: ask_def)

text \<open>
  The upload handler assigns \<^verbatim>\<open>lastDocumentText\<close> before it awaits the field
  extraction: when that throws, the new text stays.
\<close>

lemma upload_partial_state:
  assumes "extractTextFromFile e (path f) (Some (mimetype f)) = (Inr text, cs)"
    and "trim text \<noteq> []"
    and "extractFields e text = (Inl err, cs')"
  shows "upload e st sid (Some f) =
           (\<lparr>status = 500, body = ErrorReply (js ''Failed to process upload'')\<rparr>,
            st\<lparr>lastDocumentText := text\<rparr>, cs @ cs')"
  using assms by (auto simp: upload_def Let_def trim_def trimStart_def trimEnd_def)

text \<open>
  What does hold on every upload that is not answered with 200: the extracted fields and
  the session histories are as before.
\<close>

lemma upload_failure_frame:
  assumes "status (fst (upload e st sid file)) \<noteq> 200"
  shows "lastExtracted (fst (snd (upload e st sid file))) = lastExtracted st"
    and "sessions (fst (snd (upload e st sid file))) = sessions st"
  using assms
  by (auto simp: upload_def Let_def split: option.splits prod.splits sum.splits if_splits)

text \<open>
  C1, at the failing input: a text upload when field extraction throws (here: no API
  key). The handler answers 500; \<^verbatim>\<open>lastExtracted\<close> and the session histories are as
  before, but \<^verbatim>\<open>lastDocumentText\<close> already holds the text of the failed upload.
\<close>

theorem upload_failure_partial_state:
  "upload jane_env busy 3 (Some \<lparr>path = js ''up/6'', mimetype = js ''text/plain''\<rparr>) =
     (\<lparr>status = 500, body = ErrorReply (js ''Failed to process upload'')\<rparr>,
      busy\<lparr>lastDocumentText := js ''Name: Jane Doe, Loan: 5000''\<rparr>, [])
   \<and> lastDocumentText (fst (snd (upload jane_env busy 3
         (Some \<lparr>path = js ''up/6'', mimetype = js ''text/plain''\<rparr>)))) \<noteq> lastDocumentText busy
   \<and> lastExtracted (fst (snd (upload jane_env busy 3
         (Some \<lparr>path = js ''up/6'', mimetype = js ''text/plain''\<rparr>)))) = lastExtracted busy
   \<and> sessions (fst (snd (upload jane_env busy 3
         (Some \<lparr>path = js ''up/6'', mimetype = js ''text/plain''\<rparr>)))) = sessions busy"
  by (simp add: upload_def extractTextFromFile_def extractFields_def jane_env_def busy_def
      string_evals)


section \<open>Properties of the text extractor\<close>

text \<open>
  C5 as stated fails: on a server without API key, a PDF whose native text trims to 50
  code units does not reach the vision model and returns no text: \<^verbatim>\<open>getGenAi\<close>
  throws the configuration error.
\<close>

theorem keyless_fallback_counterexample:
  "trim (js '' '' @ text50 @ js '' '') = text50
   \<and> length text50 = 50
   \<and> extractTextFromFile (keyless_pdf_env (js '' '' @ text50 @ js '' '')) (js ''up/1'')
         (Some (js ''application/pdf'')) = (Inl ConfigError, [])"
  by (simp add: extractTextFromFile_def keyless_pdf_env_def text50_def string_evals)

text \<open>
  C5, amended: for a media type that holds \<^verbatim>\<open>pdf\<close>, an error reading the file
  propagates. Else the natively parsed text, trimmed, is returned, without any vision
  call and whether or not the API key is set, exactly if it is not empty and longer than
  50 code units. If the parser throws or the trimmed text has at most 50 code units, the
  fallback runs: without API key it throws the configuration error before any model
  call; else the vision model is called once with the PDF instruction, an error it throws
  propagates, and its reply is returned trimmed, the empty string if it holds no text.
\<close>

theorem pdf_native_threshold:
  assumes "includes_js (toLowerCase (orElse mimeType [])) (js ''pdf'')"
  shows "extractTextFromFile e p mimeType =
     (case readFile e p of
        Inl err \<Rightarrow> (Inl err, [])
      | Inr buffer \<Rightarrow>
          (case pdfParse e buffer of
             Inl err \<Rightarrow>
               (if \<not> api_key_set e then (Inl ConfigError, [])
                 else case generateContent e pdf_instruction (js ''application/pdf'') buffer of
                        Inl err \<Rightarrow> (Inl err, [VisionCall pdf_instruction (js ''application/pdf'') buffer])
                      | Inr r \<Rightarrow>
                          (Inr (trim (orElse (response_text r) (orElse (candidate_text r) []))),
                           [VisionCall pdf_instruction (js ''application/pdf'') buffer]))
           | Inr data \<Rightarrow>
               if trim (orElse data []) \<noteq> [] \<and> 50 < length (trim (orElse data []))
               then (Inr (trim (orElse data [])), [])
               else
               (if \<not> api_key_set e then (Inl ConfigError, [])
                 else case generateContent e pdf_instruction (js ''application/pdf'') buffer of
                        Inl err \<Rightarrow> (Inl err, [VisionCall pdf_instruction (js ''application/pdf'') buffer])
                      | Inr r \<Rightarrow>
                          (Inr (trim (orElse (response_text r) (orElse (candidate_text r) []))),
                           [VisionCall pdf_instruction (js ''application/pdf'') buffer]))))"
  using assms
  by (simp add: extractTextFromFile_def generate_text_def Let_def split: sum.splits)

theorem pdf_native_threshold_witness:
  "extractTextFromFile (pdf_env (text50 @ js ''!  '') \<lparr>response_text = Some (js '' scan ''), candidate_text = None\<rparr>)
     (js ''up/1'') (Some (js ''application/pdf'')) = (Inr (text50 @ js ''!''), [])
   \<and> extractTextFromFile (keyless_pdf_env (text50 @ js ''!  ''))
     (js ''up/1'') (Some (js ''application/pdf'')) = (Inr (text50 @ js ''!''), [])
   \<and> extractTextFromFile (pdf_env (js '' '' @ text50 @ js '' '') \<lparr>response_text = Some (js '' scan ''), candidate_text = None\<rparr>)
     (js ''up/1'') (Some (js ''application/pdf'')) =
       (Inr (js ''scan''), [VisionCall pdf_instruction (js ''application/pdf'') [0x25, 0x50, 0x44, 0x46]])
   \<and> extractTextFromFile (pdf_env (js '' '' @ text50 @ js '' '') \<lparr>response_text = None, candidate_text = None\<rparr>)
     (js ''up/1'') (Some (js ''application/pdf'')) =
       (Inr [], [VisionCall pdf_instruction (js ''application/pdf'') [0x25, 0x50, 0x44, 0x46]])
   \<and> extractTextFromFile jane_env (js ''up/1'') (Some (js ''application/pdf'')) = (Inl IOError, [])"
proof -
  have t: "includes_js (toLowerCase (orElse (Some (js ''application/pdf'')) [])) (js ''pdf'')"
    by (simp add: string_evals)
  have a: "extractTextFromFile (pdf_env (text50 @ js ''!  '') \<lparr>response_text = Some (js '' scan ''), candidate_text = None\<rparr>)
     (js ''up/1'') (Some (js ''application/pdf'')) = (Inr (text50 @ js ''!''), [])"
    using pdf_native_threshold [OF t, of "pdf_env (text50 @ js ''!  '') \<lparr>response_text = Some (js '' scan ''), candidate_text = None\<rparr>" "js ''up/1''"]
    by (simp add: pdf_env_def text50_def string_evals)
  have b: "extractTextFromFile (keyless_pdf_env (text50 @ js ''!  ''))
     (js ''up/1'') (Some (js ''application/pdf'')) = (Inr (text50 @ js ''!''), [])"
    using pdf_native_threshold [OF t, of "keyless_pdf_env (text50 @ js ''!  '')" "js ''up/1''"]
    by (simp add: keyless_pdf_env_def text50_def string_evals)
  have c: "extractTextFromFile (pdf_env (js '' '' @ text50 @ js '' '') \<lparr>response_text = Some (js '' scan ''), candidate_text = None\<rparr>)
     (js ''up/1'') (Some (js ''application/pdf'')) =
       (Inr (js ''scan''), [VisionCall pdf_instruction (js ''application/pdf'') [0x25, 0x50, 0x44, 0x46]])"
    using pdf_native_threshold [OF t, of "pdf_env (js '' '' @ text50 @ js '' '') \<lparr>response_text = Some (js '' scan ''), candidate_text = None\<rparr>" "js ''up/1''"]
    by (simp add: pdf_env_def text50_def string_evals)
  have d: "extractTextFromFile (pdf_env (js '' '' @ text50 @ js '' '') \<lparr>response_text = None, candidate_text = None\<rparr>)
     (js ''up/1'') (Some (js ''application/pdf'')) =
       (Inr [], [VisionCall pdf_instruction (js ''application/pdf'') [0x25, 0x50, 0x44, 0x46]])"
    using pdf_native_threshold [OF t, of "pdf_env (js '' '' @ text50 @ js '' '') \<lparr>response_text = None, candidate_text = None\<rparr>" "js ''up/1''"]
    by (simp add: pdf_env_def text50_def string_evals)
  have f: "extractTextFromFile jane_env (js ''up/1'') (Some (js ''application/pdf'')) = (Inl IOError, [])"
    using pdf_native_threshold [OF t, of jane_env "js ''up/1''"]
    by (simp add: jane_env_def)
  from a b c d f show ?thesis by simp
qed

text \<open>
  C6: for a media type that neither holds \<^verbatim>\<open>pdf\<close> nor starts with \<^verbatim>\<open>image/\<close>
  (plain text, an unknown type, a missing type) the function does not throw and calls no
  model: it returns the file read as UTF-8 text, and the empty string if reading fails.
\<close>

theorem text_path_never_throws:
  assumes "\<not> includes_js (toLowerCase (orElse mimeType [])) (js ''pdf'')"
    and "\<not> startsWith (toLowerCase (orElse mimeType [])) (js ''image/'')"
  shows "extractTextFromFile e p mimeType =
           (Inr (case readFile_utf8 e p of Inl err \<Rightarrow> [] | Inr text \<Rightarrow> text), [])"
  using assms by (simp add: extractTextFromFile_def Let_def split: sum.splits)

theorem text_path_never_throws_witness:
  "extractTextFromFile (pdf_env [] \<lparr>response_text = None, candidate_text = None\<rparr>) (js ''up/2'') None = (Inr [], [])
   \<and> extractTextFromFile jane_env (js ''up/3'') (Some (js ''text/plain'')) =
        (Inr (js ''Name: Jane Doe, Loan: 5000''), [])
   \<and> extractTextFromFile jane_env (js ''up/3'') (Some (js ''application/msword'')) =
        (Inr (js ''Name: Jane Doe, Loan: 5000''), [])"
  using text_path_never_throws [of None "pdf_env [] \<lparr>response_text = None, candidate_text = None\<rparr>" "js ''up/2''"]
    text_path_never_throws [of "Some (js ''text/plain'')" jane_env "js ''up/3''"]
    text_path_never_throws [of "Some (js ''application/msword'')" jane_env "js ''up/3''"]
  by (simp add: pdf_env_def jane_env_def string_evals)





section \<open>Properties of the prompt and of the reply parser\<close>

lemma slice_last: "slice (- 12) h = drop (length h - 12) h"
proof -
  have "nat (max (int (length h) + - 12) 0) = length h - 12"
    by simp
  then show ?thesis
    by (simp add: slice_def Let_def)
qed

lemma drop_nths: "drop k h = map ((!) h) [k..<length h]"
proof -
  have "drop k h = drop k (map ((!) h) [0..<length h])"
    by (simp only: map_nth)
  also have "\<dots> = map ((!) h) (drop k [0..<length h])"
    by (simp only: drop_map)
  also have "drop k [0..<length h] = [k..<length h]"
    by simp
  finally show ?thesis .
qed

lemma join_concat:
  assumes "xs \<noteq> []"
  shows "join sep xs @ sep = concat (map (\<lambda>x. x @ sep) xs)"
  using assms by (induction sep xs rule: join.induct) simp_all

lemma decimal_label:
  assumes "i < 12"
  shows "decimal (i + 1) = (if i < 9 then [0x31 + i] else [0x31, 0x30 + (i - 9)])"
proof (cases "i < 9")
  case True
  then show ?thesis
    by (simp add: decimal.simps [of "Suc i"])
next
  case False
  with assms have d: "Suc i div 10 = 1" "Suc i mod 10 = i - 9"
    by (simp_all add: div_nat_eqI mod_nat_eqI)
  from False show ?thesis
    by (simp add: decimal.simps [of "Suc i"] decimal.simps [of "Suc 0"] d)
qed

lemma map_enumerate:
  "map (\<lambda>(idx, it). f idx it) (enumerate 0 w) = map (\<lambda>i. f i (w ! i)) [0..<length w]"
  by (rule nth_equalityI) (simp_all add: nth_enumerate_eq)

lemma window_nth:
  assumes "i < min 12 (length h)"
  shows "slice (- 12) h ! i = h ! (length h - 12 + i)"
  using assms by (simp add: slice_last)

lemma history_block:
  assumes "h \<noteq> []"
  shows "formatHistoryForPrompt h =
     js ''Previous Q&A (most recent last):'' @ [0x0A] @
     concat (map (\<lambda>i. js ''Turn '' @ (if i < 9 then [0x31 + i] else [0x31, 0x30 + (i - 9)]) @
                       js '':'' @ [0x0A] @
                       js ''Q: '' @ q (h ! (length h - 12 + i)) @ [0x0A] @
                       js ''A: '' @ a (h ! (length h - 12 + i)) @ [0x0A, 0x0A])
               [0..<min 12 (length h)])"
proof -
  let ?w = "slice (- 12) h"
  have len: "length ?w = min 12 (length h)"
    by (simp add: slice_last)
  with assms have ne: "map (\<lambda>(idx, it). format_turn idx it) (enumerate 0 ?w) \<noteq> []"
    by (cases h) (auto simp: enumerate_eq_zip)
  have "formatHistoryForPrompt h =
      js ''Previous Q&A (most recent last):'' @ [0x0A] @
      (join [0x0A, 0x0A] (map (\<lambda>(idx, it). format_turn idx it) (enumerate 0 ?w)) @ [0x0A, 0x0A])"
    using assms by (simp add: formatHistoryForPrompt_def Let_def)
  also have "join [0x0A, 0x0A] (map (\<lambda>(idx, it). format_turn idx it) (enumerate 0 ?w)) @ [0x0A, 0x0A] =
      concat (map (\<lambda>x. x @ [0x0A, 0x0A]) (map (\<lambda>(idx, it). format_turn idx it) (enumerate 0 ?w)))"
    by (rule join_concat [OF ne])
  also have "map (\<lambda>(idx, it). format_turn idx it) (enumerate 0 ?w) =
      map (\<lambda>i. format_turn i (?w ! i)) [0..<min 12 (length h)]"
    by (simp only: map_enumerate len)
  also have "map (\<lambda>x. x @ [0x0A, 0x0A]) (map (\<lambda>i. format_turn i (?w ! i)) [0..<min 12 (length h)]) =
      map (\<lambda>i. js ''Turn '' @ (if i < 9 then [0x31 + i] else [0x31, 0x30 + (i - 9)]) @
                       js '':'' @ [0x0A] @
                       js ''Q: '' @ q (h ! (length h - 12 + i)) @ [0x0A] @
                       js ''A: '' @ a (h ! (length h - 12 + i)) @ [0x0A, 0x0A])
               [0..<min 12 (length h)]"
  proof -
    have "format_turn i (?w ! i) @ [0x0A, 0x0A] =
        js ''Turn '' @ (if i < 9 then [0x31 + i] else [0x31, 0x30 + (i - 9)]) @
        js '':'' @ [0x0A] @
        js ''Q: '' @ q (h ! (length h - 12 + i)) @ [0x0A] @
        js ''A: '' @ a (h ! (length h - 12 + i)) @ [0x0A, 0x0A]"
      if "i < min 12 (length h)" for i
    proof -
      from that have "i < 12" by simp
      from decimal_label [OF this] window_nth [OF that] show ?thesis
        by (simp add: format_turn_def orElse_def)
    qed
    then show ?thesis by simp
  qed
  finally show ?thesis .
qed

text \<open>
  C3: the history block of the prompt holds, after its heading, one entry for each of the
  last (at most 12) turns of the history and for no other turn, oldest first: the entry
  \<open>i\<close> (from 0) is headed \<^verbatim>\<open>Turn i+1\<close> and holds the question and the answer of the turn
  at position \<open>length h - 12 + i\<close>. Of 20 turns these are the turns at positions 8 to 19
  (the 9th to the 20th), in that order. The prompt sent to the model holds exactly this
  block between the document and the question.
\<close>

theorem history_window:
  "formatHistoryForPrompt h =
     (if h = [] then []
      else js ''Previous Q&A (most recent last):'' @ [0x0A] @
           concat (map (\<lambda>i. js ''Turn '' @ (if i < 9 then [0x31 + i] else [0x31, 0x30 + (i - 9)]) @
                         js '':'' @ [0x0A] @
                         js ''Q: '' @ q (h ! (length h - 12 + i)) @ [0x0A] @
                         js ''A: '' @ a (h ! (length h - 12 + i)) @ [0x0A, 0x0A])
                   [0..<min 12 (length h)]))
   \<and> (length h = 20 \<longrightarrow>
        formatHistoryForPrompt h =
          js ''Previous Q&A (most recent last):'' @ [0x0A] @
          concat (map (\<lambda>i. js ''Turn '' @ (if i < 9 then [0x31 + i] else [0x31, 0x30 + (i - 9)]) @
                         js '':'' @ [0x0A] @
                         js ''Q: '' @ q (h ! (8 + i)) @ [0x0A] @
                         js ''A: '' @ a (h ! (8 + i)) @ [0x0A, 0x0A])
                   [0..<12]))
   \<and> slice (- 12) h = map ((!) h) [length h - 12..<length h]
   \<and> length (slice (- 12) h) = min 12 (length h)
   \<and> (api_key_set e \<longrightarrow>
        snd (answerQuestion e d question h) =
          [ChatCall
             (js ''You are a helpful loan document assistant. Use the document and the prior Q&A context to answer.''
              @ [0x0A, 0x0A] @ js ''Document:'' @ [0x0A] @ d @ [0x0A, 0x0A]
              @ formatHistoryForPrompt h @ js ''Question:'' @ [0x0A] @ question)])"
proof -
  have f: "formatHistoryForPrompt h =
     (if h = [] then []
      else js ''Previous Q&A (most recent last):'' @ [0x0A] @
           concat (map (\<lambda>i. js ''Turn '' @ (if i < 9 then [0x31 + i] else [0x31, 0x30 + (i - 9)]) @
                         js '':'' @ [0x0A] @
                         js ''Q: '' @ q (h ! (length h - 12 + i)) @ [0x0A] @
                         js ''A: '' @ a (h ! (length h - 12 + i)) @ [0x0A, 0x0A])
                   [0..<min 12 (length h)]))"
    using history_block [of h] by (simp add: formatHistoryForPrompt_def)
  have t: "length h = 20 \<longrightarrow>
        formatHistoryForPrompt h =
          js ''Previous Q&A (most recent last):'' @ [0x0A] @
          concat (map (\<lambda>i. js ''Turn '' @ (if i < 9 then [0x31 + i] else [0x31, 0x30 + (i - 9)]) @
                         js '':'' @ [0x0A] @
                         js ''Q: '' @ q (h ! (8 + i)) @ [0x0A] @
                         js ''A: '' @ a (h ! (8 + i)) @ [0x0A, 0x0A])
                   [0..<12])"
  proof
    assume l: "length h = 20"
    then have "h \<noteq> []" by auto
    from history_block [OF this] l show "formatHistoryForPrompt h =
          js ''Previous Q&A (most recent last):'' @ [0x0A] @
          concat (map (\<lambda>i. js ''Turn '' @ (if i < 9 then [0x31 + i] else [0x31, 0x30 + (i - 9)]) @
                         js '':'' @ [0x0A] @
                         js ''Q: '' @ q (h ! (8 + i)) @ [0x0A] @
                         js ''A: '' @ a (h ! (8 + i)) @ [0x0A, 0x0A])
                   [0..<12])"
      by simp
  qed
  have w: "slice (- 12) h = map ((!) h) [length h - 12..<length h]"
    by (simp only: slice_last drop_nths)
  have l: "length (slice (- 12) h) = min 12 (length h)"
    by (simp add: slice_last)
  have p: "api_key_set e \<longrightarrow>
        snd (answerQuestion e d question h) =
          [ChatCall
             (js ''You are a helpful loan document assistant. Use the document and the prior Q&A context to answer.''
              @ [0x0A, 0x0A] @ js ''Document:'' @ [0x0A] @ d @ [0x0A, 0x0A]
              @ formatHistoryForPrompt h @ js ''Question:'' @ [0x0A] @ question)]"
    by (simp add: answerQuestion_def answerQuestion_prompt_def Let_def split: sum.splits)
  from f t w l p show ?thesis by blast
qed

theorem history_window_witness:
  "length twenty_turns = 20
   \<and> formatHistoryForPrompt twenty_turns = twenty_block
   \<and> api_key_set (reply_env (js ''5000''))
   \<and> snd (answerQuestion (reply_env (js ''5000'')) (js ''Loan: 5000'') (js ''How much?'') twenty_turns) =
          [ChatCall
             (js ''You are a helpful loan document assistant. Use the document and the prior Q&A context to answer.''
              @ [0x0A, 0x0A] @ js ''Document:'' @ [0x0A] @ js ''Loan: 5000'' @ [0x0A, 0x0A]
              @ twenty_block @ js ''Question:'' @ [0x0A] @ js ''How much?'')]"
proof -
  have len: "length twenty_turns = 20"
    by (simp add: twenty_turns_def)
  have u: "[0..<12] = [0, 1, 2, 3, 4, 5, 6, 7, 8, 9, 10, 11 :: nat]"
    by (simp add: upt_rec)
  have n: "twenty_turns ! k = turn_no (Suc k)" if "k < 20" for k
    using that by (simp add: twenty_turns_def)
  have key: "api_key_set (reply_env (js ''5000''))"
    by (simp add: reply_env_def)
  note hw = history_window [of twenty_turns "reply_env (js ''5000'')" "js ''Loan: 5000''" "js ''How much?''"]
  have b: "formatHistoryForPrompt twenty_turns = twenty_block"
    using hw [THEN conjunct2, THEN conjunct1, rule_format, OF len]
    by (simp add: u n turn_no_def decimal.simps twenty_block_def js_def)
  from hw key have "snd (answerQuestion (reply_env (js ''5000'')) (js ''Loan: 5000'') (js ''How much?'') twenty_turns) =
          [ChatCall
             (js ''You are a helpful loan document assistant. Use the document and the prior Q&A context to answer.''
              @ [0x0A, 0x0A] @ js ''Document:'' @ [0x0A] @ js ''Loan: 5000'' @ [0x0A, 0x0A]
              @ formatHistoryForPrompt twenty_turns @ js ''Question:'' @ [0x0A] @ js ''How much?'')]"
    by blast
  with len key b show ?thesis
    by (simp only: simp_thms)
qed

text \<open>
  C2 as stated fails: the reply \<^verbatim>\<open>null\<close> is valid JSON, so \<^verbatim>\<open>safeParseJson\<close> and
  \<^verbatim>\<open>extractFields\<close> return \<^verbatim>\<open>null\<close>.
\<close>

theorem null_reply_counterexample:
  "safeParseJson (js ''null'') = Inr JNull
   \<and> fst (extractFields (reply_env (js ''null'')) (js ''Name: Jane Doe, Loan: 5000'')) = Inr JNull"
  by (simp add: extractFields_def reply_env_def pickTextFromAiMessage_def Let_def js_def json_evals)

text \<open>
  C2, amended: for every reply string \<^verbatim>\<open>safeParseJson\<close> does not throw; it returns the
  value of the reply parsed as JSON (any JSON value, \<^verbatim>\<open>null\<close> included), else the value
  of the first fenced block parsed as JSON, else the object \<^verbatim>\<open>{raw: trimmed reply}\<close>.
  \<^verbatim>\<open>extractFields\<close> returns that result whenever the model replies.
\<close>

theorem safeParseJson_never_throws:
  "safeParseJson text =
     Inr (case JSON_parse text of
            Inr v \<Rightarrow> v
          | Inl err \<Rightarrow>
              (case fence_match text of
                 None \<Rightarrow> JObj [(js ''raw'', JStr (trim text))]
               | Some inner \<Rightarrow>
                   (case JSON_parse inner of
                      Inr v \<Rightarrow> v
                    | Inl err \<Rightarrow> JObj [(js ''raw'', JStr (trim text))])))
   \<and> (api_key_set e \<and> chat_invoke e (extractFields_prompt d) = Inr ai \<longrightarrow>
        fst (extractFields e d) = safeParseJson (pickTextFromAiMessage ai))"
  by (simp add: safeParseJson_def raw_object_def extractFields_def Let_def
      split: sum.splits option.splits)

theorem safeParseJson_never_throws_witness:
  "fst (extractFields (reply_env fenced_reply) (js ''Name: Jane Doe, Loan: 5000'')) = Inr jane_fields
   \<and> safeParseJson (js ''not json '') = Inr (JObj [(js ''raw'', JStr (js ''not json''))])"
proof -
  have a: "api_key_set (reply_env fenced_reply) \<and>
      chat_invoke (reply_env fenced_reply) (extractFields_prompt (js ''Name: Jane Doe, Loan: 5000'')) =
        Inr (Some \<lparr>msg_content = Some (ContentString fenced_reply), msg_text = None\<rparr>)"
    by (simp add: reply_env_def)
  have t: "JSON_parse fenced_reply = Inl SyntaxError"
    by (simp add: fenced_reply_def js_def json_evals)
  have f: "fence_match fenced_reply = Some jane_json"
    by (simp add: fenced_reply_def jane_json_def js_def fence_match_def has_json_tag_def
        isWhiteSpace_def trimEnd_def)
  have p: "JSON_parse jane_json = Inr jane_fields"
    by (simp add: jane_json_def jane_fields_def js_def json_evals)
  have n: "JSON_parse (js ''not json '') = Inl SyntaxError" "fence_match (js ''not json '') = None"
    "trim (js ''not json '') = js ''not json''"
    by (simp_all add: js_def json_evals string_evals)
  show ?thesis
    using safeParseJson_never_throws [of fenced_reply "reply_env fenced_reply" "js ''Name: Jane Doe, Loan: 5000''" "Some \<lparr>msg_content = Some (ContentString fenced_reply), msg_text = None\<rparr>"]
      safeParseJson_never_throws [of "js ''not json ''"] a t f p n
    by (simp add: pickTextFromAiMessage_def)
qed

section \<open>The lexer and trailing whitespace\<close>

text \<open>
  A code unit that is whitespace for \<^verbatim>\<open>trim\<close> and \<^verbatim>\<open>\s\<close>, or a backtick: what
  stands between a fenced JSON text and its fence. No JSON token starts or goes on with
  it.
\<close>

definition filler :: "nat \<Rightarrow> bool" where
  "filler c \<longleftrightarrow> isWhiteSpace c \<or> c = 0x60"

lemma filler_char:
  assumes "filler c"
  shows "c \<noteq> 0x7B" "c \<noteq> 0x7D" "c \<noteq> 0x5B" "c \<noteq> 0x5D" "c \<noteq> 0x3A" "c \<noteq> 0x2C"
    "c \<noteq> 0x22" "c \<noteq> 0x2D" "\<not> isDigit c" "c \<noteq> 0x5C" "c \<noteq> 0x2E" "c \<noteq> 0x65" "c \<noteq> 0x45"
    "c \<noteq> 0x2B" "c \<noteq> 0x75" "hexval c = None" "unescape c = None"
    "c \<noteq> 0x74" "c \<noteq> 0x66" "c \<noteq> 0x6E" "c \<noteq> 0x6A" "c \<noteq> 0x4A"
  using assms by (auto simp: filler_def isWhiteSpace_def isDigit_def hexval_def unescape_def)

lemma startsWith_tail:
  assumes "\<forall>c\<in>set t. c \<notin> set p"
  shows "startsWith (s @ t) p = startsWith s p"
  using assms
proof (induction s p rule: startsWith.induct)
  case (1 s)
  then show ?case by simp
next
  case (2 p ps)
  then show ?case by (cases t) auto
next
  case (3 c cs p ps)
  then show ?case by simp
qed

lemma startsWith_length: "startsWith s p \<Longrightarrow> length p \<le> length s"
  by (induction s p rule: startsWith.induct) auto

lemma digits_only_tail:
  assumes "\<forall>c\<in>set t. filler c"
  shows "takeWhile isDigit t = []" and "dropWhile isDigit t = t"
  using assms by (cases t; simp add: filler_char)+

lemma digits_tail:
  assumes "\<forall>c\<in>set t. filler c"
  shows "takeWhile isDigit (xs @ t) = takeWhile isDigit xs"
    and "dropWhile isDigit (xs @ t) = dropWhile isDigit xs @ t"
  using assms by (induction xs) (simp_all add: digits_only_tail)

lemma lex_string_tail_only:
  assumes "\<forall>c\<in>set t. filler c"
  shows "lex_string t = None"
  using assms by (induction t) (auto simp: filler_char push_def)

lemma short_list:
  assumes "length (xs :: 'a list) < 4"
  obtains "xs = []" | h1 where "xs = [h1]" | h1 h2 where "xs = [h1, h2]"
    | h1 h2 h3 where "xs = [h1, h2, h3]"
proof -
  from assms have "length xs = 0 \<or> length xs = 1 \<or> length xs = 2 \<or> length xs = 3"
    by arith
  then show thesis
    using that by (auto simp: numeral_eq_Suc length_Suc_conv)
qed

lemma unicode_escape_short:
  assumes "\<forall>c\<in>set t. filler c" and "length r < 4"
  shows "lex_string (0x5C # 0x75 # r @ t) = None"
proof (cases t)
  case Nil
  from assms(2) show ?thesis
    unfolding Nil by (rule short_list) simp_all
next
  case (Cons x t')
  with assms(1) have x: "hexval x = None"
    by (simp add: filler_char)
  show ?thesis
    unfolding Cons
    by (insert assms(2) x, erule short_list) (auto split: list.splits option.splits)
qed

lemma lex_string_tail:
  assumes "\<forall>c\<in>set t. filler c"
  shows "lex_string (cs @ t) =
           (case lex_string cs of None \<Rightarrow> None | Some (str, r) \<Rightarrow> Some (str, r @ t))"
  using assms
proof (induction cs rule: lex_string.induct)
  case 1
  then show ?case by (simp add: lex_string_tail_only)
next
  case (2 c cs)
  show ?case
  proof (cases "c = 0x22")
    case True
    then show ?thesis by simp
  next
    case nq: False
    show ?thesis
    proof (cases "c = 0x5C")
      case False
      with nq "2.IH"(3) "2.prems" show ?thesis
        by (auto simp: push_def split: option.splits)
    next
      case bs: True
      show ?thesis
      proof (cases cs)
        case Nil
        with bs "2.prems" show ?thesis
          by (cases t) (auto simp: filler_char)
      next
        case (Cons e r)
        show ?thesis
        proof (cases "e = 0x75")
          case False
          with bs Cons "2.IH"(2) [OF nq bs Cons False] "2.prems" show ?thesis
            by (auto simp: push_def split: option.splits)
        next
          case u: True
          show ?thesis
          proof (cases "length r < 4")
            case False
            then obtain h1 h2 h3 h4 r' where r: "r = h1 # h2 # h3 # h4 # r'"
              by (cases r; cases "tl r"; cases "tl (tl r)"; cases "tl (tl (tl r))") auto
            with bs Cons u "2.IH"(1) [OF nq bs Cons u] "2.prems" show ?thesis
              by (auto simp: push_def split: option.splits)
          next
            case True
            have "lex_string (0x5C # 0x75 # r @ t) = None"
              by (rule unicode_escape_short [OF "2.prems" True])
            moreover have "lex_string (0x5C # 0x75 # r @ []) = None"
              by (rule unicode_escape_short [OF _ True]) simp
            ultimately show ?thesis
              using bs Cons u by simp
          qed
        qed
      qed
    qed
  qed
qed

lemma lex_int_tail:
  assumes "\<forall>c\<in>set t. filler c"
  shows "lex_int (r @ t) = (case lex_int r of None \<Rightarrow> None | Some (ip, r1) \<Rightarrow> Some (ip, r1 @ t))"
proof (cases r)
  case Nil
  with assms show ?thesis
    by (cases t) (simp_all add: lex_int_def filler_char)
next
  case (Cons d r1)
  with assms show ?thesis
    by (simp add: lex_int_def digits_tail)
qed

lemma lex_frac_tail:
  assumes "\<forall>c\<in>set t. filler c"
  shows "lex_frac (r @ t) = (fst (lex_frac r), snd (lex_frac r) @ t)"
proof (cases r)
  case Nil
  with assms show ?thesis
    by (cases t) (auto simp: lex_frac_def filler_char split: list.splits)
next
  case r: (Cons p r1)
  show ?thesis
  proof (cases r1)
    case Nil
    with r assms show ?thesis
      by (cases t) (auto simp: lex_frac_def filler_char split: list.splits)
  next
    case (Cons d r2)
    with r assms show ?thesis
      by (simp add: lex_frac_def digits_tail)
  qed
qed

lemma lex_exp_tail:
  assumes "\<forall>c\<in>set t. filler c"
  shows "lex_exp (r @ t) = (fst (lex_exp r), snd (lex_exp r) @ t)"
proof (cases r)
  case Nil
  with assms show ?thesis
    by (cases t) (auto simp: lex_exp_def filler_char split: list.splits)
next
  case r: (Cons e r1)
  show ?thesis
  proof (cases "e = 0x65 \<or> e = 0x45")
    case False
    with r show ?thesis
      by (simp add: lex_exp_def)
  next
    case e: True
    show ?thesis
    proof (cases r1)
      case Nil
      with r e assms show ?thesis
        by (cases t) (auto simp: lex_exp_def filler_char split: list.splits)
    next
      case r1: (Cons s r2)
      show ?thesis
      proof (cases "s = 0x2B \<or> s = 0x2D")
        case False
        with r e r1 assms show ?thesis
          by (auto simp: lex_exp_def digits_tail)
      next
        case sg: True
        show ?thesis
        proof (cases r2)
          case Nil
          with r e r1 sg assms show ?thesis
            by (cases t) (auto simp: lex_exp_def filler_char split: list.splits)
        next
          case (Cons d r3)
          with r e r1 sg assms show ?thesis
            by (auto simp: lex_exp_def digits_tail)
        qed
      qed
    qed
  qed
qed

lemma lex_number_tail:
  assumes "\<forall>c\<in>set t. filler c" and "cs \<noteq> []"
  shows "lex_number (cs @ t) =
           (case lex_number cs of None \<Rightarrow> None | Some (l, r) \<Rightarrow> Some (l, r @ t))"
proof -
  from assms(2) obtain c r where cs: "cs = c # r"
    by (cases cs) auto
  have i: "lex_int (c # r @ t) =
      (case lex_int (c # r) of None \<Rightarrow> None | Some (ip, r1) \<Rightarrow> Some (ip, r1 @ t))"
    using lex_int_tail [OF assms(1), of "c # r"] by simp
  show ?thesis
  proof (cases "c = 0x2D")
    case True
    then show ?thesis
      unfolding cs using assms(1)
      by (simp add: lex_number_def lex_int_tail lex_frac_tail lex_exp_tail Let_def
          split: option.splits prod.splits)
  next
    case False
    then show ?thesis
      unfolding cs using assms(1)
      by (simp add: lex_number_def i lex_frac_tail lex_exp_tail Let_def
          split: option.splits prod.splits)
  qed
qed

text \<open>
  Whitespace and backticks after a text: the tokens are the same if all of it is JSON
  whitespace, and there are none otherwise.
\<close>

lemma tokenize_filler:
  assumes "filler c" and "\<not> isJsonWs c"
  shows "tokenize (c # cs) = None"
  using assms by (simp add: tokenize.simps(2) filler_char js_def)

lemma tokenize_tail_only:
  assumes "\<forall>c\<in>set t. filler c"
  shows "tokenize t = (if \<forall>c\<in>set t. isJsonWs c then Some [] else None)"
  using assms
proof (induction t)
  case Nil
  then show ?case by simp
next
  case (Cons c t)
  show ?case
  proof (cases "isJsonWs c")
    case True
    with Cons show ?thesis
      by (simp add: tokenize.simps(2))
  next
    case False
    with Cons.prems show ?thesis
      by (simp add: tokenize_filler)
  qed
qed

lemma literal_tail:
  assumes "\<forall>c\<in>set t. filler c"
  shows "startsWith (s @ t) (js ''true'') = startsWith s (js ''true'')"
    and "startsWith (s @ t) (js ''false'') = startsWith s (js ''false'')"
    and "startsWith (s @ t) (js ''null'') = startsWith s (js ''null'')"
proof -
  have "\<forall>c\<in>set t. c \<notin> set (js ''true'') \<and> c \<notin> set (js ''false'') \<and> c \<notin> set (js ''null'')"
    using assms by (auto simp: js_def filler_def isWhiteSpace_def)
  then show "startsWith (s @ t) (js ''true'') = startsWith s (js ''true'')"
    and "startsWith (s @ t) (js ''false'') = startsWith s (js ''false'')"
    and "startsWith (s @ t) (js ''null'') = startsWith s (js ''null'')"
    by (simp_all add: startsWith_tail)
qed

lemma tokenize_tail:
  assumes "\<forall>c\<in>set t. filler c"
  shows "tokenize (s @ t) = (if \<forall>c\<in>set t. isJsonWs c then tokenize s else None)"
  using assms
proof (induction s rule: tokenize.induct)
  case 1
  then show ?case by (simp add: tokenize_tail_only)
next
  case (2 c cs)
  note t = "2.prems"
  have lit: "startsWith (c # cs @ t) (js ''true'') = startsWith (c # cs) (js ''true'')"
    "startsWith (c # cs @ t) (js ''false'') = startsWith (c # cs) (js ''false'')"
    "startsWith (c # cs @ t) (js ''null'') = startsWith (c # cs) (js ''null'')"
    using literal_tail [OF t, of "c # cs"] by simp_all
  have numt: "lex_number (c # cs @ t) =
      (case lex_number (c # cs) of None \<Rightarrow> None | Some (l, r) \<Rightarrow> Some (l, r @ t))"
    using lex_number_tail [OF t, of "c # cs"] by simp
  consider (ws) "isJsonWs c" | (p1) "c = 0x7B" | (p2) "c = 0x7D" | (p3) "c = 0x5B"
    | (p4) "c = 0x5D" | (p5) "c = 0x3A" | (p6) "c = 0x2C" | (str) "c = 0x22"
    | (num) "c = 0x2D \<or> isDigit c"
    | (other) "\<not> isJsonWs c" "c \<noteq> 0x7B" "c \<noteq> 0x7D" "c \<noteq> 0x5B" "c \<noteq> 0x5D" "c \<noteq> 0x3A"
        "c \<noteq> 0x2C" "c \<noteq> 0x22" "\<not> (c = 0x2D \<or> isDigit c)"
    by blast
  then show ?case
  proof cases
    case ws
    with "2.IH"(1) t show ?thesis
      by (simp add: tokenize.simps(2))
  next
    case p1
    then have nws: "\<not> isJsonWs c"
      by (simp add: isJsonWs_def)
    from "2.IH"(2) nws p1 t show ?thesis
      by (simp add: tokenize.simps(2))
  next
    case p2
    then have nws: "\<not> isJsonWs c"
      by (simp add: isJsonWs_def)
    from "2.IH"(3) nws p2 t show ?thesis
      by (simp add: tokenize.simps(2))
  next
    case p3
    then have nws: "\<not> isJsonWs c"
      by (simp add: isJsonWs_def)
    from "2.IH"(4) nws p3 t show ?thesis
      by (simp add: tokenize.simps(2))
  next
    case p4
    then have nws: "\<not> isJsonWs c"
      by (simp add: isJsonWs_def)
    from "2.IH"(5) nws p4 t show ?thesis
      by (simp add: tokenize.simps(2))
  next
    case p5
    then have nws: "\<not> isJsonWs c"
      by (simp add: isJsonWs_def)
    from "2.IH"(6) nws p5 t show ?thesis
      by (simp add: tokenize.simps(2))
  next
    case p6
    then have nws: "\<not> isJsonWs c"
      by (simp add: isJsonWs_def)
    from "2.IH"(7) nws p6 t show ?thesis
      by (simp add: tokenize.simps(2))
  next
    case str
    show ?thesis
    proof (cases "lex_string cs")
      case None
      moreover from str have "\<not> isJsonWs c"
        by (simp add: isJsonWs_def)
      ultimately show ?thesis
        using str t by (simp add: tokenize.simps(2) lex_string_tail)
    next
      case (Some x)
      obtain s r where x: "x = (s, r)"
        by (cases x)
      from str have "\<not> isJsonWs c" "c \<noteq> 0x7B" "c \<noteq> 0x7D" "c \<noteq> 0x5B" "c \<noteq> 0x5D"
        "c \<noteq> 0x3A" "c \<noteq> 0x2C"
        by (simp_all add: isJsonWs_def)
      from "2.IH"(8) [OF this str Some x [symmetric] t] this(1)
      show ?thesis
        using str Some x t
        by (simp add: tokenize.simps(2) lex_string_tail)
    qed
  next
    case num
    then have c: "\<not> isJsonWs c" "c \<noteq> 0x7B" "c \<noteq> 0x7D" "c \<noteq> 0x5B" "c \<noteq> 0x5D"
      "c \<noteq> 0x3A" "c \<noteq> 0x2C" "c \<noteq> 0x22"
      by (auto simp: isJsonWs_def isDigit_def)
    show ?thesis
    proof (cases "lex_number (c # cs)")
      case None
      with num c show ?thesis
        by (simp add: tokenize.simps(2) [of c] numt)
    next
      case (Some x)
      obtain l r where x: "x = (l, r)"
        by (cases x)
      from "2.IH"(9) [OF c num Some x [symmetric] t]
      show ?thesis
        using num c Some x
        by (simp add: tokenize.simps(2) [of c] numt)
    qed
  next
    case other
    have len: "startsWith (c # cs) (js ''true'') \<Longrightarrow> 3 - length cs = 0"
      "startsWith (c # cs) (js ''null'') \<Longrightarrow> 3 - length cs = 0"
      "startsWith (c # cs) (js ''false'') \<Longrightarrow> 4 - length cs = 0"
      by (auto dest!: startsWith_length simp: js_def)
    show ?thesis
    proof (cases "startsWith (c # cs) (js ''true'')")
      case True
      from "2.IH"(10) [OF other True t] other True len(1) [OF True] show ?thesis
        by (simp add: tokenize.simps(2) [of c] lit)
    next
      case nt: False
      show ?thesis
      proof (cases "startsWith (c # cs) (js ''false'')")
        case True
        from "2.IH"(11) [OF other nt True t] other nt True len(3) [OF True] show ?thesis
          by (simp add: tokenize.simps(2) [of c] lit)
      next
        case nf: False
        show ?thesis
        proof (cases "startsWith (c # cs) (js ''null'')")
          case True
          from "2.IH"(12) [OF other nt nf True t] other nt nf True len(2) [OF True] show ?thesis
            by (simp add: tokenize.simps(2) [of c] lit)
        next
          case False
          with other nt nf show ?thesis
            by (simp add: tokenize.simps(2) [of c] lit)
        qed
      qed
    qed
  qed
qed

lemma ws_filler: "isWhiteSpace c \<Longrightarrow> filler c"
  by (simp add: filler_def)

lemma JSON_parse_tokens:
  assumes "tokenize s = tokenize s'"
  shows "JSON_parse s = JSON_parse s'"
  using assms by (simp add: JSON_parse_def)

lemma valid_tokens:
  assumes "JSON_parse j = Inr v"
  shows "\<exists>toks. tokenize j = Some toks \<and> toks \<noteq> []"
proof (cases "tokenize j")
  case None
  with assms show ?thesis by (simp add: JSON_parse_def)
next
  case (Some toks)
  with assms have "toks \<noteq> []"
    by (auto simp: JSON_parse_def)
  with Some show ?thesis by simp
qed

lemma valid_not_blank:
  assumes "JSON_parse j = Inr v"
  shows "\<exists>x\<in>set j. \<not> isWhiteSpace x"
proof (rule ccontr)
  assume "\<not> (\<exists>x\<in>set j. \<not> isWhiteSpace x)"
  then have "\<forall>c\<in>set j. filler c"
    by (simp add: ws_filler)
  then have "tokenize j = Some [] \<or> tokenize j = None"
    by (simp add: tokenize_tail_only)
  with valid_tokens [OF assms] show False
    by auto
qed

lemma valid_first:
  assumes "JSON_parse (c # cs) = Inr v"
  shows "c \<noteq> 0x6A" "c \<noteq> 0x4A"
proof -
  have "tokenize (0x6A # cs) = None" "tokenize (0x4A # cs) = None"
    by (simp_all add: tokenize.simps(2) isJsonWs_def isDigit_def js_def)
  with valid_tokens [OF assms] show "c \<noteq> 0x6A" "c \<noteq> 0x4A"
    by auto
qed

lemma tokenize_trimStart:
  assumes "tokenize j = Some toks"
  shows "tokenize (dropWhile isWhiteSpace j) = Some toks"
  using assms
proof (induction j)
  case Nil
  then show ?case by simp
next
  case (Cons c j)
  show ?case
  proof (cases "isWhiteSpace c")
    case False
    with Cons.prems show ?thesis by simp
  next
    case True
    show ?thesis
    proof (cases "isJsonWs c")
      case True
      with Cons \<open>isWhiteSpace c\<close> show ?thesis
        by (simp add: tokenize.simps(2))
    next
      case False
      with True Cons.prems show ?thesis
        by (simp add: tokenize_filler ws_filler)
    qed
  qed
qed

lemma trimEnd_decomp: "trimEnd xs @ rev (takeWhile isWhiteSpace (rev xs)) = xs"
proof -
  have "trimEnd xs @ rev (takeWhile isWhiteSpace (rev xs)) =
      rev (takeWhile isWhiteSpace (rev xs) @ dropWhile isWhiteSpace (rev xs))"
    by (simp only: trimEnd_def rev_append)
  then show ?thesis by simp
qed

lemma tokenize_trimEnd:
  assumes "tokenize xs = Some toks"
  shows "tokenize (trimEnd xs) = Some toks"
proof -
  let ?w = "rev (takeWhile isWhiteSpace (rev xs))"
  have f: "\<forall>c\<in>set ?w. filler c"
    by (auto dest: set_takeWhileD simp: ws_filler)
  from assms have "tokenize (trimEnd xs @ ?w) = Some toks"
    by (simp only: trimEnd_decomp)
  then show ?thesis
    unfolding tokenize_tail [OF f] by (simp split: if_splits)
qed

lemma JSON_parse_trim:
  assumes "JSON_parse j = Inr v"
  shows "JSON_parse (trim j) = Inr v"
proof -
  from valid_tokens [OF assms] obtain toks where t: "tokenize j = Some toks"
    by blast
  then have "tokenize (trim j) = tokenize j"
    by (simp add: trim_def trimStart_def tokenize_trimEnd tokenize_trimStart)
  from JSON_parse_tokens [OF this] assms show ?thesis
    by simp
qed

lemma valid_last:
  assumes "tokenize xs = Some toks" and "xs \<noteq> []"
  shows "last xs \<noteq> 0x60"
proof
  assume "last xs = 0x60"
  with assms(2) have "xs = butlast xs @ [0x60]"
    by (metis append_butlast_last_id)
  moreover have "tokenize (butlast xs @ [0x60]) = None"
    by (subst tokenize_tail) (simp_all add: filler_def isJsonWs_def)
  ultimately show False
    using assms(1) by simp
qed

section \<open>The fence and the round trip\<close>

lemma fence_head: "js ''```'' @ X = 0x60 # 0x60 # 0x60 # X"
  by (simp add: js_def)

lemma find_fence_open: "find_fence (js ''```'' @ X) = Some ([], X)"
  by (simp add: js_def)

lemma find_fence_no_ticks:
  assumes "0x60 \<notin> set ys"
  shows "find_fence ys = None"
  using assms by (induction ys) (auto simp: js_def)

lemma find_fence_append_none:
  assumes "find_fence xs = None" and "0x60 \<notin> set ys"
  shows "find_fence (xs @ ys) = None"
  using assms
proof (induction xs)
  case Nil
  then show ?case by (simp add: find_fence_no_ticks)
next
  case (Cons c xs)
  from Cons.prems(2) have n: "\<forall>y\<in>set ys. y \<notin> set (js ''```'')"
    by (auto simp: js_def)
  from Cons.prems(1) have s: "\<not> startsWith (c # xs) (js ''```'')" and r: "find_fence xs = None"
    by (auto split: if_splits)
  from s have "\<not> startsWith (c # xs @ ys) (js ''```'')"
    using startsWith_tail [OF n, of "c # xs"] by simp
  with Cons.IH [OF r Cons.prems(2)] show ?case
    by simp
qed

lemma find_fence_suffix:
  assumes "find_fence (pre @ xs) = None"
  shows "find_fence xs = None"
  using assms by (induction pre) (auto split: if_splits)

lemma find_fence_close:
  assumes "find_fence xs = None" and "xs = [] \<or> last xs \<noteq> 0x60"
  shows "find_fence (xs @ js ''```'') = Some (xs, [])"
  using assms
proof (induction xs)
  case Nil
  then show ?case by (simp add: js_def)
next
  case (Cons c xs)
  from Cons.prems(1) have s: "\<not> startsWith (c # xs) (js ''```'')" and r: "find_fence xs = None"
    by (auto split: if_splits)
  from Cons.prems(2) have l: "xs = [] \<or> last xs \<noteq> 0x60" and c: "xs = [] \<longrightarrow> c \<noteq> 0x60"
    by (auto split: if_splits)
  have "\<not> startsWith (c # xs @ js ''```'') (js ''```'')"
  proof (cases xs)
    case Nil
    with c show ?thesis by (simp add: js_def)
  next
    case x: (Cons d xs')
    show ?thesis
    proof (cases xs')
      case Nil
      with x l show ?thesis by (simp add: js_def)
    next
      case (Cons e xs'')
      with x s show ?thesis by (simp add: js_def)
    qed
  qed
  with Cons.IH [OF r l] show ?case
    by simp
qed

lemma has_json_tag_first: "has_json_tag (c # r) \<Longrightarrow> c = 0x6A \<or> c = 0x4A"
  by (simp add: has_json_tag_def split: list.splits)

lemma has_json_tag_json: "has_json_tag (js ''json'' @ r)" "drop 4 (js ''json'' @ r) = r"
  by (simp_all add: has_json_tag_def js_def)

lemma trimEnd_append_ws:
  assumes "\<forall>c\<in>set w. isWhiteSpace c"
  shows "trimEnd (xs @ w) = trimEnd xs"
proof -
  have "dropWhile isWhiteSpace (rev w @ rev xs) = dropWhile isWhiteSpace (rev xs)"
    using assms by (intro dropWhile_append2) auto
  then show ?thesis
    by (simp only: trimEnd_def rev_append)
qed

lemma fence_match_wrapped:
  assumes valid: "JSON_parse j = Inr v"
    and nofence: "find_fence j = None"
    and tag: "tag = [] \<or> tag = js ''json''"
    and w1: "\<forall>c\<in>set w1. isWhiteSpace c"
    and w2: "\<forall>c\<in>set w2. isWhiteSpace c"
  shows "fence_match (js ''```'' @ tag @ w1 @ j @ w2 @ js ''```'') = Some (trim j)"
proof -
  let ?rest = "w1 @ j @ w2 @ js ''```''"
  let ?body = "dropWhile isWhiteSpace j"
  from valid_tokens [OF valid] obtain toks where toks: "tokenize j = Some toks"
    by blast
  from valid_not_blank [OF valid] obtain x where x: "x \<in> set j" "\<not> isWhiteSpace x"
    by blast
  have r2: "(if has_json_tag (tag @ ?rest) then drop 4 (tag @ ?rest) else tag @ ?rest) = ?rest"
  proof (cases "tag = []")
    case False
    with tag have "tag = js ''json''"
      by simp
    then show ?thesis
      by (simp only: has_json_tag_json if_True)
  next
    case True
    have "\<not> has_json_tag ?rest"
    proof (cases w1)
      case (Cons c w)
      with w1 have "isWhiteSpace c" by simp
      then have "c \<noteq> 0x6A \<and> c \<noteq> 0x4A"
        by (auto simp: isWhiteSpace_def)
      with Cons show ?thesis
        by (auto dest: has_json_tag_first)
    next
      case Nil
      from x obtain c cs where j: "j = c # cs"
        by (cases j) auto
      with valid_first [of c cs v] valid Nil show ?thesis
        by (auto dest: has_json_tag_first)
    qed
    with True show ?thesis by simp
  qed
  have r3: "dropWhile isWhiteSpace ?rest = ?body @ w2 @ js ''```''"
    using w1 x by simp
  have body_tokens: "tokenize ?body = Some toks"
    by (rule tokenize_trimStart [OF toks])
  have body_ne: "?body \<noteq> []"
    using x by (auto simp: dropWhile_eq_Nil_conv)
  have "0x60 \<notin> set w2"
    using w2 by (auto simp: isWhiteSpace_def)
  moreover have "find_fence ?body = None"
    using nofence find_fence_suffix [of "takeWhile isWhiteSpace j" ?body] by simp
  ultimately have none: "find_fence (?body @ w2) = None"
    by (rule find_fence_append_none [rotated])
  have "last (?body @ w2) \<noteq> 0x60"
  proof (cases "w2 = []")
    case True
    with valid_last [OF body_tokens body_ne] show ?thesis by simp
  next
    case False
    then have "last (?body @ w2) = last w2" by simp
    moreover from False w2 have "isWhiteSpace (last w2)" by simp
    ultimately show ?thesis
      by (auto simp: isWhiteSpace_def)
  qed
  then have "find_fence ((?body @ w2) @ js ''```'') = Some (?body @ w2, [])"
    by (intro find_fence_close [OF none]) simp
  then have close: "find_fence (?body @ w2 @ js ''```'') = Some (?body @ w2, [])"
    by simp
  have "fence_match (js ''```'' @ tag @ ?rest) = Some (trimEnd (?body @ w2))"
    by (simp add: fence_match_def find_fence_open r2 r3 close Let_def)
  then show ?thesis
    by (simp add: trimEnd_append_ws [OF w2] trim_def trimStart_def)
qed

text \<open>
  C4 as stated fails: the JSON string of three backticks is valid JSON, but wrapped in a
  fence the lazy group ends at the backticks inside it, the rest does not parse, and the
  result is the \<^verbatim>\<open>raw\<close> object instead of the string.
\<close>

theorem fence_inside_string_counterexample:
  "JSON_parse (js ''\"```\"'') = Inr (JStr (js ''```''))
   \<and> safeParseJson (js ''\"```\"'') = Inr (JStr (js ''```''))
   \<and> safeParseJson (js ''```json'' @ [0x0A] @ js ''\"```\"'' @ [0x0A] @ js ''```'') =
       Inr (JObj [(js ''raw'', JStr (js ''```json'' @ [0x0A] @ js ''\"```\"'' @ [0x0A] @ js ''```''))])
   \<and> safeParseJson (js ''```json'' @ [0x0A] @ js ''\"```\"'' @ [0x0A] @ js ''```'') \<noteq>
       safeParseJson (js ''\"```\"'')"
  by (simp add: js_def json_evals string_evals)

text \<open>
  C4, amended: for every valid JSON text \<open>j\<close> that holds no three consecutive backticks,
  \<^verbatim>\<open>safeParseJson\<close> of \<open>j\<close> wrapped in a fence, with or without the tag \<^verbatim>\<open>json\<close> and
  with any whitespace (none too) between the fences and \<open>j\<close>, is \<^verbatim>\<open>safeParseJson\<close> of
  \<open>j\<close> itself, the value of \<open>j\<close>.
\<close>

theorem fenced_round_trip:
  assumes "JSON_parse j = Inr v"
    and "\<not> includes_js j (js ''```'')"
    and "tag = [] \<or> tag = js ''json''"
    and "\<forall>c\<in>set w1. isWhiteSpace c"
    and "\<forall>c\<in>set w2. isWhiteSpace c"
  shows "safeParseJson (js ''```'' @ tag @ w1 @ j @ w2 @ js ''```'') = safeParseJson j
         \<and> safeParseJson j = Inr v"
proof -
  from assms(2) have nofence: "find_fence j = None"
    by (simp add: find_fence_none_iff)
  have "tokenize (js ''```'' @ tag @ w1 @ j @ w2 @ js ''```'') = None"
    by (simp add: fence_head tokenize_filler filler_def isJsonWs_def)
  then have "JSON_parse (js ''```'' @ tag @ w1 @ j @ w2 @ js ''```'') = Inl SyntaxError"
    by (simp add: JSON_parse_def)
  with fence_match_wrapped [OF assms(1) nofence assms(3-5)] JSON_parse_trim [OF assms(1)] assms(1)
  show ?thesis
    by (simp add: safeParseJson_def)
qed

theorem fenced_round_trip_witness:
  "safeParseJson (js ''```'' @ js ''json'' @ [0x0A] @ jane_json @ [0x0A] @ js ''```'') = Inr jane_fields
   \<and> safeParseJson (js ''```'' @ [] @ [] @ jane_json @ [] @ js ''```'') = Inr jane_fields
   \<and> safeParseJson jane_json = Inr jane_fields"
proof -
  have v: "JSON_parse jane_json = Inr jane_fields"
    by (simp add: jane_json_def jane_fields_def js_def json_evals)
  have n: "\<not> includes_js jane_json (js ''```'')"
    by (simp add: jane_json_def js_def)
  have w: "\<forall>c\<in>set [0x0A]. isWhiteSpace c" "\<forall>c\<in>set []. isWhiteSpace c"
    by (simp_all add: isWhiteSpace_def)
  have t: "js ''json'' = [] \<or> js ''json'' = js ''json''" "[] = [] \<or> [] = js ''json''"
    by simp_all
  from fenced_round_trip [OF v n t(1) w(1) w(1)] fenced_round_trip [OF v n t(2) w(2) w(2)]
  show ?thesis
    by simp
qed

end
